theory Spec2Isabelle
  imports Complex_Main
begin

section \<open>Data model\<close>

text \<open>
  The development embeds \<^verbatim>\<open>include/DataFrame/DataFrameMLVisitors.h\<close>: the two visitors
  \<^verbatim>\<open>KMeansVisitor\<close> and \<^verbatim>\<open>AffinityPropVisitor\<close>.

  Conventions of the embedding.
  \<^item> A \<^verbatim>\<open>double\<close> is a \<^typ>\<open>real\<close>: rounding, infinities and NaN are not modelled. The
    largest finite double is the constant \<open>dbl_max\<close>.
  \<^item> A \<^verbatim>\<open>size_t\<close> is a \<^typ>\<open>nat\<close> below \<open>2 ^ 64\<close>. The sums and products of the index
    arithmetic do not wrap for columns shorter than \<open>2 ^ 32\<close> entries (lemma
    \<open>index_arithmetic_fits\<close>). Of the subtractions, the one in the packed offset never goes
    below zero (lemma \<open>packed_offset_no_borrow\<close>); \<^verbatim>\<open>col_size - 1\<close> in line 42 only bounds the
    random draws, which are an input here; \<^verbatim>\<open>csize - 1\<close> in line 180 goes below zero for an
    empty column, and its wrap-around is written out (\<open>size_t_pred\<close>).
  \<^item> A column is a list; the index sequence only contributes its size.
  \<^item> The entries of a \<^verbatim>\<open>VectorPtrView\<close> are addresses. The address of entry \<open>i\<close> of a
    column \<open>c\<close> is \<open>Elem c i\<close>; the address of \<^verbatim>\<open>k_means_[i]\<close> is \<open>Mean i\<close>.
  \<^item> The draws of the random generator are an input, \<open>rd_gen\<close>: draw number \<open>i\<close> is
    \<open>rd_gen i\<close>.
  \<^item> Reading outside an array and reading an uninitialised variable are errors of the
    model.
  \<^item> Names are the source's, without the trailing underscore of a member; the members
    \<^verbatim>\<open>iter_num_\<close> and \<^verbatim>\<open>dfunc_\<close>, which both classes have, carry the prefixes \<open>km_\<close>
    and \<open>ap_\<close>.
\<close>

definition dbl_max :: real where
  "dbl_max = (2 ^ 53 - 1) * 2 ^ 971"

datatype error = OutOfBounds | UninitialisedIndex

datatype 'a ptr = Elem "'a list" nat | Mean nat

fun deref :: "'a list \<Rightarrow> 'a ptr \<Rightarrow> 'a" where
  "deref means (Elem c i) = c ! i"
| "deref means (Mean i) = means ! i"

text \<open>The default distance function of both constructors: \<^verbatim>\<open>(x - y) * (x - y)\<close>.\<close>

definition default_dfunc :: "real \<Rightarrow> real \<Rightarrow> real" where
  "default_dfunc x y = (x - y) * (x - y)"

section \<open>KMeansVisitor\<close>

text \<open>
  The template parameter \<^verbatim>\<open>K\<close> is the size of the array \<^verbatim>\<open>k_means_\<close>, so the model reads
  it off the array.
\<close>

record 'a KMeansVisitor =
  km_iter_num :: nat
  km_dfunc :: "'a \<Rightarrow> 'a \<Rightarrow> real"
  k_means :: "'a list"

definition K :: "'a KMeansVisitor \<Rightarrow> nat" where
  "K v = length (k_means v)"

text \<open>The constructor; \<^verbatim>\<open>k_means_ { }\<close> value-initialises the \<open>k\<close> entries.\<close>

definition new_KMeansVisitor :: "nat \<Rightarrow> nat \<Rightarrow> (real \<Rightarrow> real \<Rightarrow> real) \<Rightarrow> real KMeansVisitor" where
  "new_KMeansVisitor k num_of_iter f =
     \<lparr>km_iter_num = num_of_iter, km_dfunc = f, k_means = replicate k 0\<rparr>"

text \<open>Lines 53-65: the cluster a point is assigned to, \<^verbatim>\<open>best_cluster\<close> starting at 0.\<close>

definition best_step :: "('a \<Rightarrow> 'a \<Rightarrow> real) \<Rightarrow> 'a list \<Rightarrow> 'a \<Rightarrow> real \<times> nat \<Rightarrow> nat \<Rightarrow> real \<times> nat" where
  "best_step dfunc means x st cluster =
     (let distance = dfunc x (means ! cluster)
      in if distance < fst st then (distance, cluster) else st)"

definition best_cluster :: "('a \<Rightarrow> 'a \<Rightarrow> real) \<Rightarrow> 'a list \<Rightarrow> 'a \<Rightarrow> nat" where
  "best_cluster dfunc means x =
     snd (foldl (best_step dfunc means x) (dbl_max, 0) [0..<length means])"

text \<open>Lines 52-66: every entry of \<^verbatim>\<open>assignments\<close> is written once, in order.\<close>

definition find_assignments :: "('a \<Rightarrow> 'a \<Rightarrow> real) \<Rightarrow> 'a list \<Rightarrow> 'a list \<Rightarrow> nat \<Rightarrow> nat list" where
  "find_assignments dfunc means col col_size =
     map (\<lambda>point. best_cluster dfunc means (col ! point)) [0..<col_size]"

text \<open>Lines 69-77: sums and counts per cluster.\<close>

definition sum_step :: "real list \<Rightarrow> nat list \<Rightarrow> real list \<times> real list \<Rightarrow> nat \<Rightarrow> real list \<times> real list" where
  "sum_step col assignments st point =
     (let cluster = assignments ! point
      in ((fst st)[cluster := fst st ! cluster + col ! point],
          (snd st)[cluster := snd st ! cluster + 1]))"

definition sum_and_count :: "nat \<Rightarrow> real list \<Rightarrow> nat \<Rightarrow> nat list \<Rightarrow> real list \<times> real list" where
  "sum_and_count k col col_size assignments =
     foldl (sum_step col assignments) (replicate k 0, replicate k 0) [0..<col_size]"

text \<open>
  Lines 79-92: the divisor, the candidate centroid and the guarded adoption. The state
  of the loop is the flag \<^verbatim>\<open>done\<close> and the array \<^verbatim>\<open>k_means_\<close>.
\<close>

definition divisor :: "real list \<Rightarrow> nat \<Rightarrow> real" where
  "divisor counts cluster = max 1 (counts ! cluster)"

definition candidate :: "real list \<Rightarrow> real list \<Rightarrow> nat \<Rightarrow> real" where
  "candidate new_means counts cluster = new_means ! cluster / divisor counts cluster"

definition update_step ::
  "(real \<Rightarrow> real \<Rightarrow> real) \<Rightarrow> real list \<Rightarrow> real list \<Rightarrow> bool \<times> real list \<Rightarrow> nat \<Rightarrow> bool \<times> real list" where
  "update_step dfunc new_means counts st cluster =
     (let val = candidate new_means counts cluster
      in if dfunc val (snd st ! cluster) > 1 / 10000000
         then (False, (snd st)[cluster := val])
         else st)"

definition update_means ::
  "(real \<Rightarrow> real \<Rightarrow> real) \<Rightarrow> real list \<Rightarrow> real list \<Rightarrow> real list \<Rightarrow> bool \<times> real list" where
  "update_means dfunc new_means counts means =
     foldl (update_step dfunc new_means counts) (True, means) [0..<length means]"

text \<open>Lines 51-92: one pass of the body of the refinement loop.\<close>

definition iteration :: "(real \<Rightarrow> real \<Rightarrow> real) \<Rightarrow> real list \<Rightarrow> nat \<Rightarrow> real list \<Rightarrow> bool \<times> real list" where
  "iteration dfunc col col_size means =
     (let assignments = find_assignments dfunc means col col_size;
          sc = sum_and_count (length means) col col_size assignments
      in update_means dfunc (fst sc) (snd sc) means)"

text \<open>
  Lines 50-95: the refinement loop. The first argument is the number of iterations
  left, \<^verbatim>\<open>iter_num_ - iter\<close>. Besides the centroids the function returns the number of
  passes of the body it made, which the source does not store.
\<close>

fun refine :: "nat \<Rightarrow> (real \<Rightarrow> real \<Rightarrow> real) \<Rightarrow> real list \<Rightarrow> nat \<Rightarrow> real list \<Rightarrow> real list \<times> nat" where
  "refine 0 dfunc col col_size means = (means, 0)"
| "refine (Suc left) dfunc col col_size means =
     (let r = iteration dfunc col col_size means
      in if fst r then (snd r, 1)
         else (let rest = refine left dfunc col col_size (snd r)
               in (fst rest, Suc (snd rest))))"

text \<open>
  Lines 38-96. The two reads that can leave an array come first: \<^verbatim>\<open>col[rd_gen(gen)]\<close>
  (line 46) and, for \<open>K = 0\<close>, \<^verbatim>\<open>new_means[0]\<close> (line 75), which the first pass of the
  loop reads as soon as there is a point.
\<close>

definition calc_k_means ::
  "real KMeansVisitor \<Rightarrow> real list \<Rightarrow> nat \<Rightarrow> (nat \<Rightarrow> nat) \<Rightarrow> error + real KMeansVisitor" where
  "calc_k_means v col col_size rd_gen =
     (if \<not> list_all (\<lambda>i. rd_gen i < length col) [0..<K v] then Inl OutOfBounds
      else if K v = 0 \<and> 0 < col_size \<and> 0 < km_iter_num v then Inl OutOfBounds
      else Inr (v\<lparr>k_means :=
        fst (refine (km_iter_num v) (km_dfunc v) col col_size
               (map (\<lambda>i. col ! rd_gen i) [0..<K v]))\<rparr>))"

text \<open>Lines 100-104: \<^verbatim>\<open>operator()\<close>.\<close>

definition km_compute ::
  "real KMeansVisitor \<Rightarrow> nat \<Rightarrow> real list \<Rightarrow> (nat \<Rightarrow> nat) \<Rightarrow> error + real KMeansVisitor" where
  "km_compute v idx_size col rd_gen = calc_k_means v col (min idx_size (length col)) rd_gen"

definition km_get_result :: "'a KMeansVisitor \<Rightarrow> 'a list" where
  "km_get_result v = k_means v"

text \<open>
  Lines 120-130 and 309-319, the same loop in both \<^verbatim>\<open>get_clusters\<close>: \<^verbatim>\<open>min_idx\<close> is
  declared without a value, so it is \<open>None\<close> until the first assignment.
\<close>

definition min_step :: "('a \<Rightarrow> 'a \<Rightarrow> real) \<Rightarrow> 'a list \<Rightarrow> 'a \<Rightarrow> real \<times> nat option \<Rightarrow> nat \<Rightarrow> real \<times> nat option" where
  "min_step dfunc cs x st i =
     (let dist = dfunc x (cs ! i)
      in if dist < fst st then (dist, Some i) else st)"

definition min_idx :: "('a \<Rightarrow> 'a \<Rightarrow> real) \<Rightarrow> 'a list \<Rightarrow> 'a \<Rightarrow> nat option" where
  "min_idx dfunc cs x =
     snd (foldl (min_step dfunc cs x) (dbl_max, None) [0..<length cs])"

text \<open>
  Lines 119-132 and 308-322: the points are pushed in order; \<^verbatim>\<open>clusters[min_idx]\<close> with
  \<^verbatim>\<open>min_idx\<close> never assigned is the error \<open>UninitialisedIndex\<close>.
\<close>

fun push_points ::
  "('a \<Rightarrow> 'a \<Rightarrow> real) \<Rightarrow> 'a list \<Rightarrow> 'a list \<Rightarrow> nat list \<Rightarrow> 'a ptr list list \<Rightarrow> error + 'a ptr list list" where
  "push_points dfunc cs col [] clusters = Inr clusters"
| "push_points dfunc cs col (j # js) clusters =
     (case min_idx dfunc cs (col ! j) of
        None \<Rightarrow> Inl UninitialisedIndex
      | Some m \<Rightarrow> push_points dfunc cs col js (clusters[m := clusters ! m @ [Elem col j]]))"

text \<open>Lines 108-135: \<^verbatim>\<open>KMeansVisitor::get_clusters\<close>.\<close>

definition km_get_clusters :: "'a KMeansVisitor \<Rightarrow> nat \<Rightarrow> 'a list \<Rightarrow> error + 'a ptr list list" where
  "km_get_clusters v idx_size col =
     (let col_size = min idx_size (length col);
          clusters = map (\<lambda>i. [Mean i]) [0..<K v]
      in push_points (km_dfunc v) (k_means v) col [0..<col_size] clusters)"

section \<open>AffinityPropVisitor\<close>

record 'a AffinityPropVisitor =
  ap_iter_num :: nat
  ap_dfunc :: "'a \<Rightarrow> 'a \<Rightarrow> real"
  dfactor :: real
  centers :: "'a ptr list"

definition new_AffinityPropVisitor :: "nat \<Rightarrow> ('a \<Rightarrow> 'a \<Rightarrow> real) \<Rightarrow> real \<Rightarrow> 'a AffinityPropVisitor" where
  "new_AffinityPropVisitor num_of_iter f damping_factor =
     \<lparr>ap_iter_num = num_of_iter, ap_dfunc = f, dfactor = damping_factor, centers = []\<rparr>"

text \<open>
  The offset every access to \<^verbatim>\<open>simil\<close> uses (lines 184, 190, 212, 220, 229):
  \<^verbatim>\<open>(i * csize) + j - ((i * (i + 1)) >> 1)\<close>.
\<close>

definition packed_offset :: "nat \<Rightarrow> nat \<Rightarrow> nat \<Rightarrow> nat" where
  "packed_offset csize i j = (i * csize) + j - ((i * (i + 1)) div 2)"

text \<open>
  The value of \<^verbatim>\<open>n - 1\<close> in the arithmetic of \<^verbatim>\<open>size_t\<close>, 64 bits wide: for \<open>n = 0\<close> the
  subtraction wraps around to the largest value of the type.
\<close>

definition size_max :: nat where
  "size_max = 2 ^ 64 - 1"

definition size_t_pred :: "nat \<Rightarrow> nat" where
  "size_t_pred n = (if n = 0 then size_max else n - 1)"

text \<open>
  Line 180: the values that \<open>i\<close> takes in the outer loop of \<^verbatim>\<open>get_similarity_\<close>,
  \<^verbatim>\<open>for (size_type i = 0; i < csize - 1; ++i)\<close>, one for each turn of the loop.
\<close>

definition outer_turns :: "nat \<Rightarrow> nat list" where
  "outer_turns csize = [0..<size_t_pred csize]"

text \<open>
  Lines 172-193: \<^verbatim>\<open>get_similarity_\<close>. The state of the first loop is \<^verbatim>\<open>simil\<close> and
  \<^verbatim>\<open>min_val\<close>; the inner loop of a turn \<open>i\<close> runs over \<open>i + 1 \<le> j < csize\<close>.
\<close>

definition simil_step :: "('a \<Rightarrow> 'a \<Rightarrow> real) \<Rightarrow> 'a list \<Rightarrow> nat \<Rightarrow> nat \<Rightarrow> real list \<times> real \<Rightarrow> nat \<Rightarrow> real list \<times> real" where
  "simil_step dfunc col csize i st j =
     (let val = - dfunc (col ! i) (col ! j)
      in ((fst st)[packed_offset csize i j := val],
          if val < snd st then val else snd st))"

definition simil_row :: "('a \<Rightarrow> 'a \<Rightarrow> real) \<Rightarrow> 'a list \<Rightarrow> nat \<Rightarrow> real list \<times> real \<Rightarrow> nat \<Rightarrow> real list \<times> real" where
  "simil_row dfunc col csize st i = foldl (simil_step dfunc col csize i) st [i + 1..<csize]"

definition simil_pairs :: "('a \<Rightarrow> 'a \<Rightarrow> real) \<Rightarrow> 'a list \<Rightarrow> nat \<Rightarrow> real list \<times> real" where
  "simil_pairs dfunc col csize =
     foldl (simil_row dfunc col csize)
       (replicate ((csize * (csize + 1)) div 2) 0, dbl_max) (outer_turns csize)"

definition get_similarity :: "('a \<Rightarrow> 'a \<Rightarrow> real) \<Rightarrow> 'a list \<Rightarrow> nat \<Rightarrow> real list" where
  "get_similarity dfunc col csize =
     (let st = simil_pairs dfunc col csize
      in foldl (\<lambda>simil i. simil[packed_offset csize i i := snd st]) (fst st) [0..<csize])"

text \<open>Lines 208-225: \<^verbatim>\<open>max_diff\<close> for the pair \<open>(i, j)\<close>, over \<open>jj < j\<close> and then \<open>j < jj\<close>.\<close>

definition diff_step :: "real list \<Rightarrow> real list \<Rightarrow> nat \<Rightarrow> nat \<Rightarrow> real \<Rightarrow> nat \<Rightarrow> real" where
  "diff_step simil avail csize i max_diff jj =
     (let val = simil ! packed_offset csize i jj + avail ! (jj * csize + i)
      in if val > max_diff then val else max_diff)"

definition max_diff :: "real list \<Rightarrow> real list \<Rightarrow> nat \<Rightarrow> nat \<Rightarrow> nat \<Rightarrow> real" where
  "max_diff simil avail csize i j =
     foldl (diff_step simil avail csize i)
       (foldl (diff_step simil avail csize i) (- dbl_max) [0..<j]) [j + 1..<csize]"

text \<open>Lines 206-233: the responsibility pass.\<close>

definition respon_step :: "real \<Rightarrow> real list \<Rightarrow> real list \<Rightarrow> nat \<Rightarrow> nat \<Rightarrow> real list \<Rightarrow> nat \<Rightarrow> real list" where
  "respon_step d simil avail csize i respon j =
     respon[j * csize + i :=
       (1 - d) * (simil ! packed_offset csize i j - max_diff simil avail csize i j) +
       d * respon ! (j * csize + i)]"

definition update_respon :: "real \<Rightarrow> real list \<Rightarrow> real list \<Rightarrow> nat \<Rightarrow> real list \<Rightarrow> real list" where
  "update_respon d simil avail csize respon =
     foldl (\<lambda>r i. foldl (respon_step d simil avail csize i) r [0..<csize]) respon [0..<csize]"

text \<open>Lines 236-268: the availability pass.\<close>

definition pos_sum :: "real list \<Rightarrow> nat \<Rightarrow> nat \<Rightarrow> real \<Rightarrow> nat list \<Rightarrow> real" where
  "pos_sum respon csize j s iis = foldl (\<lambda>sum ii. sum + max 0 (respon ! (j * csize + ii))) s iis"

definition avail_step :: "real \<Rightarrow> real list \<Rightarrow> nat \<Rightarrow> nat \<Rightarrow> real list \<Rightarrow> nat \<Rightarrow> real list" where
  "avail_step d respon csize i avail j =
     (if i = j then
        (let sum = pos_sum respon csize j (pos_sum respon csize j 0 [0..<i]) [i + 1..<csize]
         in avail[j * csize + i := (1 - d) * sum + d * avail ! (j * csize + i)])
      else
        (let max_i_j = max i j; min_i_j = min i j;
             sum = pos_sum respon csize j
                     (pos_sum respon csize j
                        (pos_sum respon csize j 0 [0..<min_i_j])
                        [min_i_j + 1..<max_i_j])
                     [max_i_j + 1..<csize]
         in avail[j * csize + i :=
              (1 - d) * min 0 (respon ! (j * csize + j) + sum) + d * avail ! (j * csize + i)]))"

definition update_avail :: "real \<Rightarrow> real list \<Rightarrow> nat \<Rightarrow> real list \<Rightarrow> real list" where
  "update_avail d respon csize avail =
     foldl (\<lambda>a i. foldl (avail_step d respon csize i) a [0..<csize]) avail [0..<csize]"

text \<open>Lines 204-269: one round; the state is the pair \<^verbatim>\<open>(avail, respon)\<close>.\<close>

definition round_step :: "real \<Rightarrow> real list \<Rightarrow> nat \<Rightarrow> real list \<times> real list \<Rightarrow> real list \<times> real list" where
  "round_step d simil csize st =
     (let respon = update_respon d simil (fst st) csize (snd st);
          avail = update_avail d respon csize (fst st)
      in (avail, respon))"

text \<open>
  Lines 204-269: the loop over \<^verbatim>\<open>m\<close>. The first argument is the number of rounds left;
  besides the two vectors the function returns the number of rounds it made, which the
  source does not store.
\<close>

fun rounds :: "nat \<Rightarrow> real \<Rightarrow> real list \<Rightarrow> nat \<Rightarrow> real list \<times> real list \<Rightarrow> (real list \<times> real list) \<times> nat" where
  "rounds 0 d simil csize st = (st, 0)"
| "rounds (Suc left) d simil csize st =
     (let rest = rounds left d simil csize (round_step d simil csize st)
      in (fst rest, Suc (snd rest)))"

text \<open>Lines 195-272: both vectors arrive empty and are resized with zeros.\<close>

definition get_avail_and_respon :: "nat \<Rightarrow> real \<Rightarrow> real list \<Rightarrow> nat \<Rightarrow> real list \<times> real list" where
  "get_avail_and_respon iter_num d simil csize =
     fst (rounds iter_num d simil csize (replicate (csize * csize) 0, replicate (csize * csize) 0))"

text \<open>Lines 287-291: the selection loop; \<^verbatim>\<open>push_back\<close> appends to \<^verbatim>\<open>centers_\<close>.\<close>

definition select_step :: "'a list \<Rightarrow> nat \<Rightarrow> real list \<Rightarrow> real list \<Rightarrow> 'a ptr list \<Rightarrow> nat \<Rightarrow> 'a ptr list" where
  "select_step col csize avail respon view i =
     (if respon ! (i * csize + i) + avail ! (i * csize + i) > 0
      then view @ [Elem col i] else view)"

text \<open>Lines 276-292: \<^verbatim>\<open>operator()\<close>.\<close>

definition ap_compute :: "'a AffinityPropVisitor \<Rightarrow> nat \<Rightarrow> 'a list \<Rightarrow> 'a AffinityPropVisitor" where
  "ap_compute v idx_size col =
     (let csize = min idx_size (length col);
          simil = get_similarity (ap_dfunc v) col csize;
          ar = get_avail_and_respon (ap_iter_num v) (dfactor v) simil csize
      in v\<lparr>centers := foldl (select_step col csize (fst ar) (snd ar)) (centers v) [0..<csize]\<rparr>)"

definition ap_get_result :: "'a AffinityPropVisitor \<Rightarrow> 'a ptr list" where
  "ap_get_result v = centers v"

text \<open>
  Lines 296-326: \<^verbatim>\<open>AffinityPropVisitor::get_clusters\<close>. \<^verbatim>\<open>centers_[i]\<close> is the value at
  the address; the addresses in \<^verbatim>\<open>centers_\<close> are addresses of column entries, so \<open>deref\<close>
  needs no centroids.
\<close>

definition ap_get_clusters :: "'a AffinityPropVisitor \<Rightarrow> nat \<Rightarrow> 'a list \<Rightarrow> error + 'a ptr list list" where
  "ap_get_clusters v idx_size col =
     (let csize = min idx_size (length col);
          centers_size = length (centers v)
      in if centers_size > 0
         then push_points (ap_dfunc v) (map (deref []) (centers v)) col [0..<csize]
                (replicate centers_size [])
         else Inr [])"

section \<open>Notions used to state the properties\<close>

text \<open>
  The candidate centroid of a cluster in one pass (the \<^verbatim>\<open>value\<close> of line 86), the flag
  \<^verbatim>\<open>done\<close> at the end of the pass and the centroids it leaves.
\<close>

definition new_centroid :: "(real \<Rightarrow> real \<Rightarrow> real) \<Rightarrow> real list \<Rightarrow> nat \<Rightarrow> real list \<Rightarrow> nat \<Rightarrow> real" where
  "new_centroid dfunc col col_size means cluster =
     (let sc = sum_and_count (length means) col col_size (find_assignments dfunc means col col_size)
      in candidate (fst sc) (snd sc) cluster)"

definition pass_done :: "(real \<Rightarrow> real \<Rightarrow> real) \<Rightarrow> real list \<Rightarrow> nat \<Rightarrow> real list \<Rightarrow> bool" where
  "pass_done dfunc col col_size means = fst (iteration dfunc col col_size means)"

definition pass_means :: "(real \<Rightarrow> real \<Rightarrow> real) \<Rightarrow> real list \<Rightarrow> nat \<Rightarrow> real list \<Rightarrow> real list" where
  "pass_means dfunc col col_size means = snd (iteration dfunc col col_size means)"

text \<open>The number of points of \<open>[0..<col_size]\<close> that \<^verbatim>\<open>assignments\<close> gives to a cluster.\<close>

definition assigned_count :: "nat list \<Rightarrow> nat \<Rightarrow> nat \<Rightarrow> nat" where
  "assigned_count assignments col_size cluster =
     length (filter (\<lambda>point. assignments ! point = cluster) [0..<col_size])"

text \<open>
  The entry of \<^verbatim>\<open>simil\<close> that the source reads for the ordered pair \<open>(i, j)\<close>
  (lines 212, 220 and 229), whatever the order of \<open>i\<close> and \<open>j\<close>.
\<close>

definition simil_at :: "real list \<Rightarrow> nat \<Rightarrow> nat \<Rightarrow> nat \<Rightarrow> real" where
  "simil_at simil csize i j = simil ! packed_offset csize i j"

text \<open>
  The specification's symmetric similarity of the unordered pair \<open>{i, j}\<close>: the entry
  that \<^verbatim>\<open>get_similarity_\<close> wrote for the pair, at the offset of its smaller and its
  larger position.
\<close>

definition spec_similarity :: "real list \<Rightarrow> nat \<Rightarrow> nat \<Rightarrow> nat \<Rightarrow> real" where
  "spec_similarity simil csize i j = simil ! packed_offset csize (min i j) (max i j)"

text \<open>
  The specification's responsibility update,
  \<open>r(i,j) = (1-d) (s(i,j) - max over j' \<noteq> j of [s(i,j') + a(j',i)]) + d r_prev(i,j)\<close>,
  on the storage of the source: \<open>r(i,j)\<close> is \<^verbatim>\<open>respon[j * csize + i]\<close> and \<open>a(j',i)\<close> is
  \<^verbatim>\<open>avail[j' * csize + i]\<close>.
\<close>

definition spec_respon :: "real \<Rightarrow> real list \<Rightarrow> real list \<Rightarrow> real list \<Rightarrow> nat \<Rightarrow> nat \<Rightarrow> nat \<Rightarrow> real" where
  "spec_respon d simil avail respon csize i j =
     (1 - d) * (spec_similarity simil csize i j -
        Max (set (map (\<lambda>jj. spec_similarity simil csize i jj + avail ! (jj * csize + i))
                   (filter (\<lambda>jj. jj \<noteq> j) [0..<csize])))) +
     d * respon ! (j * csize + i)"

text \<open>The invariant of the loop of \<open>min_idx\<close> after the centres \<open>[0..<k]\<close>.\<close>

definition min_inv :: "('a \<Rightarrow> 'a \<Rightarrow> real) \<Rightarrow> 'a list \<Rightarrow> 'a \<Rightarrow> nat \<Rightarrow> real \<times> nat option \<Rightarrow> bool" where
  "min_inv dfunc cs x k st =
     (case snd st of
        None \<Rightarrow> fst st = dbl_max \<and> (\<forall>i<k. \<not> dfunc x (cs ! i) < dbl_max)
      | Some m \<Rightarrow> m < k \<and> fst st = dfunc x (cs ! m) \<and> dfunc x (cs ! m) < dbl_max \<and>
          (\<forall>i<k. dfunc x (cs ! m) \<le> dfunc x (cs ! i)) \<and>
          (\<forall>i<m. dfunc x (cs ! m) < dfunc x (cs ! i)))"

text \<open>Triangular numbers, for the arithmetic of the packed offset.\<close>

definition triangle :: "nat \<Rightarrow> nat" where
  "triangle i = (i * (i + 1)) div 2"

text \<open>The pairs \<open>(i, j)\<close> that the first loop of \<^verbatim>\<open>get_similarity_\<close> visits, in its order.\<close>

definition upper_pairs :: "nat \<Rightarrow> (nat \<times> nat) list" where
  "upper_pairs csize = concat (map (\<lambda>i. map (Pair i) [i + 1..<csize]) (outer_turns csize))"

section \<open>Auxiliary facts\<close>

subsection \<open>Evaluating the loops on concrete inputs\<close>

text \<open>
  Unfolding rules for index ranges and zero-filled vectors, and the bounds on \<open>dbl_max\<close>
  that the examples need.
\<close>

lemma upt_unfold: "[i..<j] = (if i < j then i # [i + 1..<j] else [])"
  by (simp add: upt_rec)

lemma replicate_unfold: "replicate n x = (if n = 0 then [] else x # replicate (n - 1) x)"
  by (cases n) simp_all

lemma length2: "length [a, b] = 2"
  by simp

lemma zeros9: "replicate (3 * 3) (0::real) = [0, 0, 0, 0, 0, 0, 0, 0, 0]"
  by (simp add: replicate_unfold)

lemma dbl_max_pos: "0 < dbl_max"
  by (simp add: dbl_max_def)

lemma dbl_max_lt: "dbl_max < 2 ^ 1024"
proof -
  have "dbl_max < 2 ^ 53 * 2 ^ 971" unfolding dbl_max_def by (intro mult_strict_right_mono) simp_all
  also have "\<dots> = 2 ^ 1024" by (simp add: power_add[symmetric])
  finally show ?thesis .
qed

lemma rounds_1: "rounds 1 d simil csize st = (round_step d simil csize st, 1)"
  by (simp add: Let_def)

subsection \<open>Loops that write into an array\<close>

text \<open>
  A nested \<^verbatim>\<open>for\<close> is one loop over the pairs of indices. A loop that writes entry \<open>f k\<close>
  at step \<open>k\<close>, with \<open>f\<close> injective on the steps, leaves at \<open>f k\<close> what step \<open>k\<close> wrote
  and leaves every other entry alone.
\<close>

lemma foldl_nested:
  "foldl (\<lambda>st i. foldl (h i) st (js i)) st is =
   foldl (\<lambda>st p. h (fst p) st (snd p)) st (concat (map (\<lambda>i. map (Pair i) (js i)) is))"
proof (induction "is" arbitrary: st)
  case Nil
  show ?case by simp
next
  case (Cons i "is")
  have "foldl (\<lambda>st p. h (fst p) st (snd p)) st (map (Pair i) (js i)) = foldl (h i) st (js i)" for st
    by (induction "js i" arbitrary: st rule: rev_induct) (simp_all add: foldl_map)
  then show ?case using Cons by simp
qed

lemma length_foldl_update: "length (foldl (\<lambda>s k. s[f k := g k]) s ks) = length s"
  by (induction ks rule: rev_induct) simp_all

lemma foldl_update_hit:
  assumes "inj_on f (set ks)" "k \<in> set ks" "f k < length s"
  shows "foldl (\<lambda>s k. s[f k := g k]) s ks ! f k = g k"
  using assms
proof (induction ks rule: rev_induct)
  case Nil
  then show ?case by simp
next
  case (snoc k' ks)
  show ?case
  proof (cases "k = k'")
    case True
    with snoc.prems show ?thesis by (simp add: length_foldl_update)
  next
    case False
    with snoc.prems have "k \<in> set ks" "f k \<noteq> f k'" "inj_on f (set ks)"
      by (auto simp: inj_on_def)
    with snoc show ?thesis by simp
  qed
qed

lemma foldl_update_miss:
  assumes "p \<notin> f ` set ks"
  shows "foldl (\<lambda>s k. s[f k := g k]) s ks ! p = s ! p"
  using assms by (induction ks rule: rev_induct) auto

lemma length_foldl_update_self: "length (foldl (\<lambda>s k. s[f k := g k (s ! f k)]) s ks) = length s"
  by (induction ks rule: rev_induct) simp_all

lemma foldl_update_self_miss:
  assumes "p \<notin> f ` set ks"
  shows "foldl (\<lambda>s k. s[f k := g k (s ! f k)]) s ks ! p = s ! p"
  using assms by (induction ks rule: rev_induct) auto

lemma foldl_update_self_hit:
  assumes "distinct ks" "inj_on f (set ks)" "k \<in> set ks" "f k < length s"
  shows "foldl (\<lambda>s k. s[f k := g k (s ! f k)]) s ks ! f k = g k (s ! f k)"
  using assms
proof (induction ks rule: rev_induct)
  case Nil
  then show ?case by simp
next
  case (snoc k' ks)
  show ?case
  proof (cases "k = k'")
    case True
    with snoc.prems have "f k \<notin> f ` set ks" by (auto simp: inj_on_def)
    from foldl_update_self_miss[OF this, of g s] True snoc.prems(4) show ?thesis
      by (simp add: length_foldl_update_self)
  next
    case False
    with snoc.prems have "k \<in> set ks" "f k \<noteq> f k'" "inj_on f (set ks)" "distinct ks"
      by (auto simp: inj_on_def)
    with snoc show ?thesis by simp
  qed
qed

lemma foldl_min_lower:
  "foldl (\<lambda>m p. min m (g p)) (m0::real) ps \<le> m0 \<and> (\<forall>p\<in>set ps. foldl (\<lambda>m p. min m (g p)) m0 ps \<le> g p)"
  by (induction ps rule: rev_induct) (auto simp: min_le_iff_disj)

lemma foldl_min_attained:
  "foldl (\<lambda>m p. min m (g p)) (m0::real) ps = m0 \<or> (\<exists>p\<in>set ps. foldl (\<lambda>m p. min m (g p)) m0 ps = g p)"
  by (induction ps rule: rev_induct) (auto simp: min_def)

lemma length_foldl_steps:
  assumes "\<And>s k. length (step s k) = length s"
  shows "length (foldl step s ks) = length s"
  by (induction ks rule: rev_induct) (simp_all add: assms)

section \<open>The packed offset\<close>

text \<open>
  The subtraction in the offset never goes below zero, so \<^typ>\<open>nat\<close> and \<^verbatim>\<open>size_t\<close> agree
  on it. On pairs \<open>i \<le> j < n\<close> the offset is injective and stays below the size of
  \<^verbatim>\<open>simil\<close>; for \<open>j < i\<close> it still lands inside the vector, but not in general on the entry
  that was written for the pair.
\<close>

lemma packed_offset_no_borrow:
  "i < csize \<Longrightarrow> (i * (i + 1)) div 2 \<le> i * csize + (j::nat)"
proof -
  assume "i < csize"
  then have "i + 1 \<le> csize" by simp
  then have "i * (i + 1) \<le> i * csize" by (rule mult_le_mono2)
  moreover have "(i * (i + 1)) div 2 \<le> i * (i + 1)" by simp
  ultimately show ?thesis by linarith
qed

lemma triangle_double: "2 * triangle i = i * (i + 1)"
  unfolding triangle_def by simp

lemma triangle_Suc: "triangle (Suc i) = triangle i + Suc i"
proof -
  have "2 * triangle (Suc i) = 2 * (triangle i + Suc i)"
    unfolding triangle_double by (simp only: triangle_double distrib_left) simp
  then show ?thesis by simp
qed

lemma triangle_le: "i \<le> n \<Longrightarrow> triangle i \<le> i * n"
proof (induction i)
  case 0
  show ?case by (simp add: triangle_def)
next
  case (Suc i)
  then have "triangle i \<le> i * n" "Suc i \<le> n" by simp_all
  then show ?case by (simp add: triangle_Suc)
qed

lemma packed_offset_triangle: "packed_offset n i j = i * n + j - triangle i"
  by (simp add: packed_offset_def triangle_def)

lemma packed_offset_row: "i \<le> j \<Longrightarrow> i \<le> n \<Longrightarrow> packed_offset n i j = packed_offset n i i + (j - i)"
  using triangle_le[of i n] by (simp add: packed_offset_triangle)

lemma packed_offset_diag_Suc: "i \<le> n \<Longrightarrow> packed_offset n (Suc i) (Suc i) = packed_offset n i i + (n - i)"
  using triangle_le[of i n] by (simp add: packed_offset_triangle triangle_Suc)

lemma packed_offset_diag_mono: "i < i' \<Longrightarrow> i' \<le> n \<Longrightarrow> packed_offset n i i + (n - i) \<le> packed_offset n i' i'"
proof (induction i')
  case 0
  then show ?case by simp
next
  case (Suc i')
  show ?case
  proof (cases "i = i'")
    case True
    with Suc.prems show ?thesis by (simp add: packed_offset_diag_Suc)
  next
    case False
    with Suc have "packed_offset n i i + (n - i) \<le> packed_offset n i' i'" by simp
    also have "\<dots> \<le> packed_offset n (Suc i') (Suc i')"
      using Suc.prems by (simp add: packed_offset_diag_Suc)
    finally show ?thesis .
  qed
qed

lemma packed_offset_rows_apart:
  assumes "i \<le> j" "j < n" "i' \<le> j'" "j' < n" "i < i'"
  shows "packed_offset n i j < packed_offset n i' j'"
proof -
  have "packed_offset n i j = packed_offset n i i + (j - i)"
    using assms by (intro packed_offset_row) simp_all
  also have "\<dots> < packed_offset n i i + (n - i)" using assms by simp
  also have "\<dots> \<le> packed_offset n i' i'" using assms by (intro packed_offset_diag_mono) simp_all
  also have "\<dots> \<le> packed_offset n i' j'" using assms packed_offset_row[of i' j' n] by simp
  finally show ?thesis .
qed

lemma packed_offset_inj:
  assumes "i \<le> j" "j < n" "i' \<le> j'" "j' < n" "packed_offset n i j = packed_offset n i' j'"
  shows "i = i' \<and> j = j'"
proof -
  have "\<not> i < i'" using packed_offset_rows_apart[OF assms(1-4)] assms(5) by auto
  moreover have "\<not> i' < i" using packed_offset_rows_apart[OF assms(3,4,1,2)] assms(5) by auto
  ultimately have e: "i = i'" by simp
  have "packed_offset n i j = packed_offset n i i + (j - i)"
    using assms by (intro packed_offset_row) simp_all
  moreover have "packed_offset n i j' = packed_offset n i i + (j' - i)"
    using assms e by (intro packed_offset_row) simp_all
  ultimately have "j - i = j' - i" using assms(5) e by simp
  with assms e show ?thesis by simp
qed

lemma packed_offset_size: "packed_offset n n n = (n * (n + 1)) div 2"
proof -
  have "n * n + n = n * (n + 1)" by simp
  moreover have "n * (n + 1) = 2 * triangle n" by (simp only: triangle_double)
  ultimately have "n * n + n - triangle n = triangle n" by simp
  then show ?thesis by (simp only: packed_offset_triangle triangle_def)
qed

lemma packed_offset_bound:
  assumes "i \<le> j" "j < n"
  shows "packed_offset n i j < (n * (n + 1)) div 2"
proof -
  have "packed_offset n i j = packed_offset n i i + (j - i)"
    using assms by (intro packed_offset_row) simp_all
  also have "\<dots> < packed_offset n i i + (n - i)" using assms by simp
  also have "\<dots> \<le> packed_offset n n n" using assms by (intro packed_offset_diag_mono) simp_all
  finally show ?thesis by (simp only: packed_offset_size)
qed

lemma packed_offset_bound_any:
  assumes "i < n" "j < n"
  shows "packed_offset n i j < (n * (n + 1)) div 2"
proof (cases "i \<le> j")
  case True
  with assms show ?thesis by (simp only: packed_offset_bound)
next
  case False
  then have "packed_offset n i j \<le> packed_offset n i i" by (simp add: packed_offset_def)
  also have "\<dots> < (n * (n + 1)) div 2" using assms by (simp only: packed_offset_bound)
  finally show ?thesis .
qed

lemma cell_inj:
  assumes "i < n" "i' < n" "j * n + i = j' * n + (i'::nat)"
  shows "i = i' \<and> j = j'"
proof -
  from assms have "(j * n + i) mod n = (j' * n + i') mod n" "(j * n + i) div n = (j' * n + i') div n"
    by simp_all
  with assms(1,2) show ?thesis by simp
qed

lemma cell_bound: "i < n \<Longrightarrow> j < n \<Longrightarrow> j * n + i < n * (n::nat)"
proof -
  assume "i < n" "j < n"
  then have "j * n + i < j * n + n" "Suc j \<le> n" by simp_all
  then have "j * n + i < Suc j * n" by simp
  also have "\<dots> \<le> n * n" using \<open>Suc j \<le> n\<close> by (rule mult_le_mono1)
  finally show ?thesis .
qed

text \<open>
  For a column of fewer than \<open>2\<^sup>3\<^sup>2\<close> entries every index expression of the exemplar engine
  stays below \<open>2\<^sup>6\<^sup>4\<close>, so the arithmetic of \<^verbatim>\<open>size_t\<close> does not wrap.
\<close>

lemma index_arithmetic_fits:
  assumes "csize < 2 ^ 32" "i < csize" "j < csize"
  shows "i * csize + j < 2 ^ 64 \<and> j * csize + i < 2 ^ 64 \<and> i * (i + 1) < 2 ^ 64 \<and>
         csize * (csize + 1) < 2 ^ 64 \<and> csize * csize < (2::nat) ^ 64"
proof -
  have c: "csize + 1 \<le> 2 ^ 32" using assms(1) by simp
  have "csize * (csize + 1) \<le> 2 ^ 32 * (2::nat) ^ 32"
    using assms(1) c by (intro mult_mono) simp_all
  moreover have "(2::nat) ^ 32 * 2 ^ 32 = 2 ^ 64" by simp
  moreover have "csize * (csize + 1) < 2 ^ 32 * (2::nat) ^ 32"
    using assms(1) c by (intro mult_less_le_imp_less) simp_all
  ultimately have a: "csize * (csize + 1) < 2 ^ 64" by simp
  have "i * csize + j < csize * csize" using cell_bound[OF assms(3,2)] by (simp add: mult.commute)
  moreover have "j * csize + i < csize * csize" using cell_bound[OF assms(2,3)] by simp
  moreover have "csize * csize \<le> csize * (csize + 1)" by simp
  moreover have "i * (i + 1) \<le> csize * (csize + 1)"
    using assms(2) by (intro mult_mono) simp_all
  ultimately show ?thesis using a by linarith
qed

section \<open>The centroid engine\<close>

subsection \<open>One pass of the refinement loop\<close>

lemma update_fold:
  assumes "k \<le> length means"
  shows "let st = foldl (update_step dfunc new_means counts) (True, means) [0..<k] in
     length (snd st) = length means \<and>
     (\<forall>c<length means. snd st ! c =
        (if c < k \<and> dfunc (candidate new_means counts c) (means ! c) > 1 / 10000000
         then candidate new_means counts c else means ! c)) \<and>
     (fst st \<longleftrightarrow> (\<forall>c<k. dfunc (candidate new_means counts c) (means ! c) \<le> 1 / 10000000))"
  using assms
proof (induction k)
  case 0
  show ?case by simp
next
  case (Suc k)
  then have k: "k < length means" by simp
  let ?st = "foldl (update_step dfunc new_means counts) (True, means) [0..<k]"
  from Suc have ih: "length (snd ?st) = length means"
    "\<forall>c<length means. snd ?st ! c =
        (if c < k \<and> dfunc (candidate new_means counts c) (means ! c) > 1 / 10000000
         then candidate new_means counts c else means ! c)"
    "fst ?st \<longleftrightarrow> (\<forall>c<k. dfunc (candidate new_means counts c) (means ! c) \<le> 1 / 10000000)"
    by (simp_all add: Let_def)
  from ih(2) k have old: "snd ?st ! k = means ! k" by simp
  show ?case
  proof (cases "dfunc (candidate new_means counts k) (means ! k) > 1 / 10000000")
    case True
    then have st: "foldl (update_step dfunc new_means counts) (True, means) [0..<Suc k] =
        (False, (snd ?st)[k := candidate new_means counts k])"
      by (simp add: update_step_def Let_def old)
    show ?thesis unfolding Let_def st
      using ih True k by (auto simp: nth_list_update less_Suc_eq)
  next
    case False
    then have st: "foldl (update_step dfunc new_means counts) (True, means) [0..<Suc k] = ?st"
      by (simp add: update_step_def Let_def old)
    show ?thesis unfolding Let_def st
      using ih False k by (auto simp: less_Suc_eq)
  qed
qed

lemma pass_done_iff:
  "pass_done dfunc col n means \<longleftrightarrow>
     (\<forall>c<length means. dfunc (new_centroid dfunc col n means c) (means ! c) \<le> 1 / 10000000)"
  using update_fold[of "length means" means dfunc]
  by (simp add: pass_done_def iteration_def update_means_def new_centroid_def Let_def)

lemma pass_means_nth:
  "c < length means \<Longrightarrow> pass_means dfunc col n means ! c =
     (if dfunc (new_centroid dfunc col n means c) (means ! c) > 1 / 10000000
      then new_centroid dfunc col n means c else means ! c)"
  using update_fold[of "length means" means dfunc]
  by (simp add: pass_means_def iteration_def update_means_def new_centroid_def Let_def)

lemma length_pass_means: "length (pass_means dfunc col n means) = length means"
  using update_fold[of "length means" means dfunc]
  by (simp add: pass_means_def iteration_def update_means_def Let_def)

lemma sum_fold:
  assumes "cluster < k"
  shows "let st = foldl (sum_step col assignments) (replicate k 0, replicate k 0) [0..<n] in
     length (fst st) = k \<and> length (snd st) = k \<and>
     snd st ! cluster = real (assigned_count assignments n cluster) \<and>
     fst st ! cluster = sum_list (map (\<lambda>point. col ! point) (filter (\<lambda>point. assignments ! point = cluster) [0..<n]))"
proof (induction n)
  case 0
  show ?case using assms by (simp add: assigned_count_def)
next
  case (Suc n)
  then show ?case using assms
    by (auto simp: Let_def sum_step_def assigned_count_def nth_list_update)
qed

subsection \<open>The refinement loop\<close>

text \<open>
  The loop makes \<open>c\<close> passes, none of the first \<open>c - 1\<close> ends with \<^verbatim>\<open>done\<close> set, and if it
  stops before the cap then the last pass did.
\<close>

lemma refine_char:
  "\<exists>c\<le>n. refine n dfunc col cs means = (((pass_means dfunc col cs) ^^ c) means, c) \<and>
     (\<forall>k. Suc k < c \<longrightarrow> \<not> pass_done dfunc col cs (((pass_means dfunc col cs) ^^ k) means)) \<and>
     (c < n \<longrightarrow> 0 < c \<and> pass_done dfunc col cs (((pass_means dfunc col cs) ^^ (c - 1)) means))"
proof (induction n arbitrary: means)
  case 0
  show ?case by simp
next
  case (Suc n)
  let ?step = "pass_means dfunc col cs"
  show ?case
  proof (cases "pass_done dfunc col cs means")
    case True
    then have "refine (Suc n) dfunc col cs means = ((?step ^^ 1) means, 1)"
      by (simp add: pass_done_def pass_means_def Let_def)
    with True show ?thesis
      by (intro exI[of _ 1]) simp
  next
    case False
    from Suc.IH[of "?step means"] obtain c where c: "c \<le> n"
      "refine n dfunc col cs (?step means) = ((?step ^^ c) (?step means), c)"
      "\<forall>k. Suc k < c \<longrightarrow> \<not> pass_done dfunc col cs ((?step ^^ k) (?step means))"
      "c < n \<longrightarrow> 0 < c \<and> pass_done dfunc col cs ((?step ^^ (c - 1)) (?step means))"
      by blast
    have r: "refine (Suc n) dfunc col cs means = ((?step ^^ Suc c) means, Suc c)"
      using False c(2) by (simp add: pass_done_def pass_means_def Let_def funpow_swap1)
    have a: "\<not> pass_done dfunc col cs ((?step ^^ k) means)" if "Suc k < Suc c" for k
    proof (cases k)
      case 0
      with False show ?thesis by simp
    next
      case (Suc k')
      with that c(3) show ?thesis by (simp add: funpow_swap1)
    qed
    have b: "0 < Suc c \<and> pass_done dfunc col cs ((?step ^^ (Suc c - 1)) means)" if "Suc c < Suc n"
    proof -
      from that c(4) have "0 < c" "pass_done dfunc col cs ((?step ^^ (c - 1)) (?step means))" by auto
      then show ?thesis by (cases c) (simp_all add: funpow_swap1)
    qed
    from c(1) r a b show ?thesis
      by (intro exI[of _ "Suc c"]) blast
  qed
qed

lemma refine_never_converged:
  assumes "\<forall>k<n. \<not> pass_done dfunc col cs (((pass_means dfunc col cs) ^^ k) means)"
  shows "refine n dfunc col cs means = (((pass_means dfunc col cs) ^^ n) means, n)"
proof -
  from refine_char[of n dfunc col cs means] obtain c where c: "c \<le> n"
      "refine n dfunc col cs means = (((pass_means dfunc col cs) ^^ c) means, c)"
      "c < n \<longrightarrow> 0 < c \<and> pass_done dfunc col cs (((pass_means dfunc col cs) ^^ (c - 1)) means)"
    by blast
  have "c = n"
  proof (rule ccontr)
    assume "c \<noteq> n"
    with c have "c < n" "0 < c" "pass_done dfunc col cs (((pass_means dfunc col cs) ^^ (c - 1)) means)" by auto
    moreover have "c - 1 < n" using \<open>c < n\<close> by simp
    ultimately show False using assms by blast
  qed
  with c(2) show ?thesis by simp
qed

lemma refine_first_converged:
  assumes "k < n" and "pass_done dfunc col cs (((pass_means dfunc col cs) ^^ k) means)"
    and "\<forall>k'<k. \<not> pass_done dfunc col cs (((pass_means dfunc col cs) ^^ k') means)"
  shows "refine n dfunc col cs means = (((pass_means dfunc col cs) ^^ Suc k) means, Suc k)"
proof -
  from refine_char[of n dfunc col cs means] obtain c where c: "c \<le> n"
      "refine n dfunc col cs means = (((pass_means dfunc col cs) ^^ c) means, c)"
      "\<forall>k. Suc k < c \<longrightarrow> \<not> pass_done dfunc col cs (((pass_means dfunc col cs) ^^ k) means)"
      "c < n \<longrightarrow> 0 < c \<and> pass_done dfunc col cs (((pass_means dfunc col cs) ^^ (c - 1)) means)"
    by blast
  have 1: "\<not> Suc k < c" using c(3) assms(2) by blast
  have 2: "\<not> c < Suc k"
  proof
    assume lt: "c < Suc k"
    with assms(1) have "c < n" by simp
    with c(4) have "0 < c" "pass_done dfunc col cs (((pass_means dfunc col cs) ^^ (c - 1)) means)" by auto
    moreover from lt \<open>0 < c\<close> have "c - 1 < k" by simp
    ultimately show False using assms(3) by blast
  qed
  from 1 2 have "c = Suc k" by simp
  with c(2) show ?thesis by simp
qed

lemma length_funpow_pass_means:
  "length (((pass_means dfunc col n) ^^ c) means) = length means"
  by (induction c) (simp_all add: length_pass_means)

lemma length_refine: "length (fst (refine n dfunc col cs means)) = length means"
  using refine_char[of n dfunc col cs means] by (auto simp: length_funpow_pass_means)

lemma km_compute_Inr:
  assumes "1 \<le> K v" and "\<forall>i<K v. rd_gen i < min idx_size (length col)"
  shows "\<exists>v'. km_compute v idx_size col rd_gen = Inr v' \<and> K v' = K v \<and>
           k_means v' = fst (refine (km_iter_num v) (km_dfunc v) col (min idx_size (length col))
                               (map (\<lambda>i. col ! rd_gen i) [0..<K v]))"
proof -
  have "list_all (\<lambda>i. rd_gen i < length col) [0..<K v]"
    using assms(2) by (auto simp: list_all_iff)
  moreover have "k_means v \<noteq> []" using assms(1) by (auto simp: K_def)
  ultimately show ?thesis
    by (simp add: km_compute_def calc_k_means_def K_def length_refine)
qed

text \<open>
  \<^verbatim>\<open>calc_k_means_\<close> overwrites every entry of \<^verbatim>\<open>k_means_\<close> before it reads one: the
  result does not depend on the centroids the instance held.
\<close>

lemma km_compute_discards_state:
  assumes "length means = K v"
  shows "km_compute (v\<lparr>k_means := means\<rparr>) idx_size col rd_gen = km_compute v idx_size col rd_gen"
  using assms by (simp add: km_compute_def calc_k_means_def K_def)

section \<open>The nearest centre\<close>

text \<open>
  The loop over the centres, shared by both \<^verbatim>\<open>get_clusters\<close>: when it assigns \<^verbatim>\<open>min_idx\<close>,
  the index is the first one at the least distance; it assigns nothing exactly when no
  distance is below \<open>dbl_max\<close>.
\<close>

lemma min_inv_step:
  assumes "min_inv dfunc cs x k st"
  shows "min_inv dfunc cs x (Suc k) (min_step dfunc cs x st k)"
proof (cases "snd st")
  case None
  with assms show ?thesis
    by (auto simp: min_inv_def min_step_def Let_def less_Suc_eq)
next
  case (Some m)
  with assms show ?thesis
    by (fastforce simp: min_inv_def min_step_def Let_def less_Suc_eq)
qed

lemma min_inv_fold:
  "min_inv dfunc cs x k (foldl (min_step dfunc cs x) (dbl_max, None) [0..<k])"
proof (induction k)
  case 0
  show ?case by (simp add: min_inv_def)
next
  case (Suc k)
  then show ?case by (simp add: min_inv_step)
qed

lemma min_idx_Some:
  assumes "min_idx dfunc cs x = Some m"
  shows "m < length cs \<and> dfunc x (cs ! m) < dbl_max \<and>
         (\<forall>i<length cs. dfunc x (cs ! m) \<le> dfunc x (cs ! i)) \<and>
         (\<forall>i<m. dfunc x (cs ! m) < dfunc x (cs ! i))"
  using min_inv_fold[of dfunc cs x "length cs"] assms
  by (simp add: min_idx_def min_inv_def)

lemma min_idx_None:
  "min_idx dfunc cs x = None \<longleftrightarrow> (\<forall>i<length cs. \<not> dfunc x (cs ! i) < dbl_max)"
  using min_inv_fold[of dfunc cs x "length cs"]
  by (auto simp: min_idx_def min_inv_def split: option.splits)

lemma min_idx_total:
  assumes "cs \<noteq> []" and "\<forall>i<length cs. dfunc x (cs ! i) < dbl_max"
  shows "\<exists>m<length cs. min_idx dfunc cs x = Some m"
proof (cases "min_idx dfunc cs x")
  case None
  with assms show ?thesis by (auto simp: min_idx_None)
next
  case (Some m)
  then show ?thesis using min_idx_Some[OF Some] by simp
qed

lemma push_points_Inr:
  assumes "\<forall>j\<in>set js. \<exists>m<length clusters. min_idx dfunc cs (col ! j) = Some m"
  shows "push_points dfunc cs col js clusters =
     Inr (map (\<lambda>i. clusters ! i @ map (Elem col) (filter (\<lambda>j. min_idx dfunc cs (col ! j) = Some i) js))
            [0..<length clusters])"
  using assms
proof (induction js arbitrary: clusters)
  case Nil
  show ?case by (simp add: map_nth)
next
  case (Cons j js)
  from Cons.prems obtain m where m: "m < length clusters" "min_idx dfunc cs (col ! j) = Some m"
    by auto
  let ?cl = "clusters[m := clusters ! m @ [Elem col j]]"
  have "\<forall>j\<in>set js. \<exists>m<length ?cl. min_idx dfunc cs (col ! j) = Some m"
    using Cons.prems by simp
  from Cons.IH[OF this] m show ?case
    by (auto simp: nth_list_update)
qed

lemma push_points_Inl:
  assumes "\<exists>j\<in>set js. min_idx dfunc cs (col ! j) = None"
  shows "push_points dfunc cs col js clusters = Inl UninitialisedIndex"
  using assms
  by (induction js arbitrary: clusters) (auto split: option.splits)

lemma groups_exactly_one:
  assumes "\<forall>j<n. \<exists>m<k. pick j = Some m"
    and "j < n"
  shows "\<exists>!i. i < k \<and> j \<in> set (filter (\<lambda>j. pick j = Some i) [0..<n])"
proof -
  from assms obtain m where m: "m < k" "pick j = Some m" by blast
  show ?thesis
  proof (rule ex1I[of _ m])
    show "m < k \<and> j \<in> set (filter (\<lambda>j. pick j = Some m) [0..<n])" using m assms(2) by simp
  next
    fix i assume "i < k \<and> j \<in> set (filter (\<lambda>j. pick j = Some i) [0..<n])"
    then show "i = m" using m by simp
  qed
qed

lemma km_get_clusters_Inr:
  fixes v :: "'a KMeansVisitor"
  assumes "1 \<le> K v"
    and "\<forall>j<min idx_size (length col). \<forall>i<K v. km_dfunc v (col ! j) (k_means v ! i) < dbl_max"
  shows "km_get_clusters v idx_size col =
     Inr (map (\<lambda>i. Mean i # map (Elem col)
                 (filter (\<lambda>j. min_idx (km_dfunc v) (k_means v) (col ! j) = Some i)
                    [0..<min idx_size (length col)]))
            [0..<K v])"
proof -
  let ?init = "map (\<lambda>i. [Mean i :: 'a ptr]) [0..<K v]"
  have ne: "k_means v \<noteq> []" using assms(1) by (auto simp: K_def)
  have "\<exists>m<K v. min_idx (km_dfunc v) (k_means v) (col ! j) = Some m"
    if "j < min idx_size (length col)" for j
    using min_idx_total[OF ne, of "km_dfunc v" "col ! j"] assms(2) that by (simp add: K_def)
  then have "\<forall>j\<in>set [0..<min idx_size (length col)].
      \<exists>m<length ?init. min_idx (km_dfunc v) (k_means v) (col ! j) = Some m"
    by simp
  from push_points_Inr[OF this] show ?thesis
    by (simp add: km_get_clusters_def Let_def)
qed

lemma ap_get_clusters_Inr:
  fixes v :: "'a AffinityPropVisitor"
  assumes "centers v \<noteq> []"
    and "\<forall>j<min idx_size (length col). \<forall>i<length (centers v).
           ap_dfunc v (col ! j) (deref [] (centers v ! i)) < dbl_max"
  shows "ap_get_clusters v idx_size col =
     Inr (map (\<lambda>i. map (Elem col)
                 (filter (\<lambda>j. min_idx (ap_dfunc v) (map (deref []) (centers v)) (col ! j) = Some i)
                    [0..<min idx_size (length col)]))
            [0..<length (centers v)])"
proof -
  let ?cs = "map (deref []) (centers v)"
  let ?init = "replicate (length (centers v)) ([] :: 'a ptr list)"
  have ne: "?cs \<noteq> []" using assms(1) by simp
  have "\<exists>m<length (centers v). min_idx (ap_dfunc v) ?cs (col ! j) = Some m"
    if "j < min idx_size (length col)" for j
    using min_idx_total[OF ne, of "ap_dfunc v" "col ! j"] assms(2) that by simp
  then have "\<forall>j\<in>set [0..<min idx_size (length col)].
      \<exists>m<length ?init. min_idx (ap_dfunc v) ?cs (col ! j) = Some m"
    by simp
  from push_points_Inr[OF this] assms(1) show ?thesis
    by (simp add: ap_get_clusters_def Let_def)
qed

lemma km_groups:
  fixes v :: "'a KMeansVisitor"
  assumes "1 \<le> K v"
    and "\<forall>j<min idx_size (length col). \<forall>i<K v. km_dfunc v (col ! j) (k_means v ! i) < dbl_max"
  shows "\<exists>cl. km_get_clusters v idx_size col = Inr cl \<and> length cl = K v \<and>
           (\<forall>i<K v. distinct (cl ! i)) \<and>
           (\<forall>j<min idx_size (length col). \<exists>!i. i < K v \<and> Elem col j \<in> set (cl ! i))"
proof -
  let ?n = "min idx_size (length col)"
  let ?pick = "\<lambda>j. min_idx (km_dfunc v) (k_means v) (col ! j)"
  let ?cl = "map (\<lambda>i. Mean i # map (Elem col) (filter (\<lambda>j. ?pick j = Some i) [0..<?n])) [0..<K v]"
  have ne: "k_means v \<noteq> []" using assms(1) by (auto simp: K_def)
  have tot: "\<forall>j<?n. \<exists>m<K v. ?pick j = Some m"
    using min_idx_total[OF ne, of "km_dfunc v"] assms(2) by (simp add: K_def)
  have mem: "Elem col j \<in> set (?cl ! i) \<longleftrightarrow> j \<in> set (filter (\<lambda>j. ?pick j = Some i) [0..<?n])"
    if "i < K v" for i j
    using that by auto
  have one: "\<exists>!i. i < K v \<and> Elem col j \<in> set (?cl ! i)" if "j < ?n" for j
  proof -
    from groups_exactly_one[OF tot that]
    obtain m where m: "m < K v \<and> j \<in> set (filter (\<lambda>j. ?pick j = Some m) [0..<?n])"
      and u: "\<And>i. i < K v \<and> j \<in> set (filter (\<lambda>j. ?pick j = Some i) [0..<?n]) \<Longrightarrow> i = m"
      by blast
    show ?thesis
    proof (rule ex1I[of _ m])
      show "m < K v \<and> Elem col j \<in> set (?cl ! m)" using m mem[of m j] by blast
    next
      fix i assume a: "i < K v \<and> Elem col j \<in> set (?cl ! i)"
      then have "i < K v \<and> j \<in> set (filter (\<lambda>j. ?pick j = Some i) [0..<?n])"
        using mem[of i j] by blast
      then show "i = m" by (rule u)
    qed
  qed
  have dist: "distinct (?cl ! i)" if "i < K v" for i
    using that by (auto simp: distinct_map inj_on_def)
  have "km_get_clusters v idx_size col = Inr ?cl" by (rule km_get_clusters_Inr[OF assms])
  moreover have "length ?cl = K v" by simp
  ultimately show ?thesis using dist one by blast
qed

lemma ap_groups:
  fixes v :: "'a AffinityPropVisitor"
  assumes "centers v \<noteq> []"
    and "\<forall>j<min idx_size (length col). \<forall>i<length (centers v).
           ap_dfunc v (col ! j) (deref [] (centers v ! i)) < dbl_max"
  shows "\<exists>cl. ap_get_clusters v idx_size col = Inr cl \<and> length cl = length (centers v) \<and>
           (\<forall>i<length (centers v). distinct (cl ! i)) \<and>
           (\<forall>j<min idx_size (length col). \<exists>!i. i < length (centers v) \<and> Elem col j \<in> set (cl ! i))"
proof -
  let ?n = "min idx_size (length col)" and ?k = "length (centers v)"
  let ?cs = "map (deref []) (centers v)"
  let ?pick = "\<lambda>j. min_idx (ap_dfunc v) ?cs (col ! j)"
  let ?cl = "map (\<lambda>i. map (Elem col) (filter (\<lambda>j. ?pick j = Some i) [0..<?n])) [0..<?k]"
  have ne: "?cs \<noteq> []" using assms(1) by simp
  have tot: "\<forall>j<?n. \<exists>m<?k. ?pick j = Some m"
    using min_idx_total[OF ne, of "ap_dfunc v"] assms(2) by simp
  have mem: "Elem col j \<in> set (?cl ! i) \<longleftrightarrow> j \<in> set (filter (\<lambda>j. ?pick j = Some i) [0..<?n])"
    if "i < ?k" for i j
    using that by auto
  have one: "\<exists>!i. i < ?k \<and> Elem col j \<in> set (?cl ! i)" if "j < ?n" for j
  proof -
    from groups_exactly_one[OF tot that]
    obtain m where m: "m < ?k \<and> j \<in> set (filter (\<lambda>j. ?pick j = Some m) [0..<?n])"
      and u: "\<And>i. i < ?k \<and> j \<in> set (filter (\<lambda>j. ?pick j = Some i) [0..<?n]) \<Longrightarrow> i = m"
      by blast
    show ?thesis
    proof (rule ex1I[of _ m])
      show "m < ?k \<and> Elem col j \<in> set (?cl ! m)" using m mem[of m j] by blast
    next
      fix i assume a: "i < ?k \<and> Elem col j \<in> set (?cl ! i)"
      then have "i < ?k \<and> j \<in> set (filter (\<lambda>j. ?pick j = Some i) [0..<?n])"
        using mem[of i j] by blast
      then show "i = m" by (rule u)
    qed
  qed
  have dist: "distinct (?cl ! i)" if "i < ?k" for i
    using that by (auto simp: distinct_map inj_on_def)
  have "ap_get_clusters v idx_size col = Inr ?cl" by (rule ap_get_clusters_Inr[OF assms])
  moreover have "length ?cl = ?k" by simp
  ultimately show ?thesis using dist one by blast
qed

lemma km_get_clusters_Inl:
  assumes "\<exists>j<min idx_size (length col). \<forall>i<K v. \<not> km_dfunc v (col ! j) (k_means v ! i) < dbl_max"
  shows "km_get_clusters v idx_size col = Inl UninitialisedIndex"
proof -
  from assms have "\<exists>j\<in>set [0..<min idx_size (length col)].
      min_idx (km_dfunc v) (k_means v) (col ! j) = None"
    by (auto simp: min_idx_None K_def)
  then show ?thesis
    by (simp only: km_get_clusters_def Let_def push_points_Inl)
qed

lemma ap_get_clusters_Inl:
  assumes "centers v \<noteq> []"
    and "\<exists>j<min idx_size (length col). \<forall>i<length (centers v).
           \<not> ap_dfunc v (col ! j) (deref [] (centers v ! i)) < dbl_max"
  shows "ap_get_clusters v idx_size col = Inl UninitialisedIndex"
proof -
  from assms(2) have "\<exists>j\<in>set [0..<min idx_size (length col)].
      min_idx (ap_dfunc v) (map (deref []) (centers v)) (col ! j) = None"
    by (auto simp: min_idx_None)
  from push_points_Inl[OF this] assms(1) show ?thesis
    by (simp add: ap_get_clusters_def Let_def)
qed

section \<open>The exemplar engine\<close>

subsection \<open>The similarity vector\<close>

text \<open>
  The bound of the outer loop. On a column of at least one point it is \<open>n - 1\<close>; on an
  empty column the subtraction wraps around, the loop makes \<open>2\<^sup>6\<^sup>4 - 1\<close> turns, none of which
  visits a pair, and the vector stays empty.
\<close>

lemma size_t_pred_pos: "0 < n \<Longrightarrow> size_t_pred n = n - 1"
  by (simp add: size_t_pred_def)

lemma size_t_pred_mod: "n < 2 ^ 64 \<Longrightarrow> size_t_pred n = (n + 2 ^ 64 - 1) mod 2 ^ 64"
proof (cases "n = 0")
  case True
  then show ?thesis by (simp add: size_t_pred_def size_max_def)
next
  case False
  assume n: "n < 2 ^ 64"
  from False have "n + 2 ^ 64 - 1 = (n - 1) + 1 * 2 ^ 64" by simp
  then have "(n + 2 ^ 64 - 1) mod 2 ^ 64 = (n - 1) mod 2 ^ 64" by (simp only: mod_mult_self1)
  also have "\<dots> = n - 1" using n by simp
  finally show ?thesis using False by (simp add: size_t_pred_def)
qed

lemma outer_turns_pos: "0 < n \<Longrightarrow> outer_turns n = [0..<n - 1]"
  by (simp add: outer_turns_def size_t_pred_pos)

lemma length_outer_turns: "length (outer_turns n) = size_t_pred n"
  by (simp add: outer_turns_def)

lemma set_upper_pairs: "set (upper_pairs n) = {(i, j). i < j \<and> j < n}"
proof (cases "n = 0")
  case True
  then show ?thesis by (auto simp: upper_pairs_def)
next
  case False
  have "\<exists>x\<in>{0..<n - Suc 0}. (a, b) \<in> Pair x ` {Suc x..<n}" if "a < b" "b < n" for a b
    using that by (intro bexI[of _ a]) auto
  then show ?thesis using False by (auto simp: upper_pairs_def outer_turns_pos)
qed

lemma upper_pairs_empty: "upper_pairs 0 = []"
  using set_upper_pairs[of 0] by simp

lemma simil_pairs_flat:
  "simil_pairs dfunc col n =
     foldl (\<lambda>st p. simil_step dfunc col n (fst p) st (snd p))
       (replicate ((n * (n + 1)) div 2) 0, dbl_max) (upper_pairs n)"
  unfolding simil_pairs_def upper_pairs_def
  using foldl_nested[of "simil_step dfunc col n" "\<lambda>i. [i + 1..<n]"]
  by (simp add: simil_row_def[abs_def])

lemma simil_pairs_empty: "simil_pairs dfunc col 0 = ([], dbl_max)"
  by (simp add: simil_pairs_flat upper_pairs_empty)

lemma get_similarity_empty: "get_similarity dfunc col 0 = []"
  by (simp add: get_similarity_def simil_pairs_empty)

text \<open>
  The entries of the vector.
\<close>

lemma fst_simil_fold:
  "fst (foldl (\<lambda>st p. simil_step dfunc col n (fst p) st (snd p)) st ps) =
     foldl (\<lambda>s p. s[packed_offset n (fst p) (snd p) := - dfunc (col ! fst p) (col ! snd p)]) (fst st) ps"
  by (induction ps rule: rev_induct) (simp_all add: simil_step_def Let_def)

lemma snd_simil_fold:
  "snd (foldl (\<lambda>st p. simil_step dfunc col n (fst p) st (snd p)) st ps) =
     foldl (\<lambda>m p. min m (- dfunc (col ! fst p) (col ! snd p))) (snd st) ps"
  by (induction ps rule: rev_induct) (auto simp: simil_step_def Let_def min_def)

lemma length_fst_simil_pairs: "length (fst (simil_pairs dfunc col n)) = (n * (n + 1)) div 2"
  by (simp add: simil_pairs_flat fst_simil_fold length_foldl_update)

lemma fst_simil_pairs_nth:
  assumes "i < j" "j < n"
  shows "fst (simil_pairs dfunc col n) ! packed_offset n i j = - dfunc (col ! i) (col ! j)"
proof -
  let ?f = "\<lambda>p. packed_offset n (fst p) (snd p)"
  have inj: "inj_on ?f (set (upper_pairs n))"
  proof (rule inj_onI)
    fix p q assume "p \<in> set (upper_pairs n)" "q \<in> set (upper_pairs n)" "?f p = ?f q"
    then have "fst p \<le> snd p" "snd p < n" "fst q \<le> snd q" "snd q < n"
        "packed_offset n (fst p) (snd p) = packed_offset n (fst q) (snd q)"
      by (auto simp: set_upper_pairs)
    from packed_offset_inj[OF this] show "p = q" by (simp add: prod_eq_iff)
  qed
  have mem: "(i, j) \<in> set (upper_pairs n)" using assms by (simp add: set_upper_pairs)
  have bound: "?f (i, j) < length (replicate ((n * (n + 1)) div 2) (0::real))"
    using assms packed_offset_bound[of i j n] by simp
  from foldl_update_hit[of ?f "upper_pairs n" "(i, j)" _ "\<lambda>p. - dfunc (col ! fst p) (col ! snd p)", OF inj mem bound]
  show ?thesis by (simp add: simil_pairs_flat fst_simil_fold)
qed

lemma get_similarity_pair:
  assumes "i < j" "j < n"
  shows "get_similarity dfunc col n ! packed_offset n i j = - dfunc (col ! i) (col ! j)"
proof -
  have "packed_offset n i j \<notin> (\<lambda>k. packed_offset n k k) ` set [0..<n]"
  proof
    assume "packed_offset n i j \<in> (\<lambda>k. packed_offset n k k) ` set [0..<n]"
    then obtain k where "k < n" "packed_offset n i j = packed_offset n k k" by auto
    with assms packed_offset_inj[of i j n k k] show False by simp
  qed
  from foldl_update_miss[OF this, of "\<lambda>k. snd (simil_pairs dfunc col n)" "fst (simil_pairs dfunc col n)"]
  show ?thesis using assms by (simp add: get_similarity_def Let_def fst_simil_pairs_nth)
qed

lemma get_similarity_diag:
  assumes "i < n"
  shows "get_similarity dfunc col n ! packed_offset n i i = snd (simil_pairs dfunc col n)"
proof -
  have inj: "inj_on (\<lambda>k. packed_offset n k k) (set [0..<n])"
  proof (rule inj_onI)
    fix x y assume "x \<in> set [0..<n]" "y \<in> set [0..<n]" "packed_offset n x x = packed_offset n y y"
    then have "x \<le> x" "x < n" "y \<le> y" "y < n" "packed_offset n x x = packed_offset n y y"
      by simp_all
    from packed_offset_inj[OF this] show "x = y" by simp
  qed
  have bound: "packed_offset n i i < length (fst (simil_pairs dfunc col n))"
    using assms packed_offset_bound[of i i n] by (simp add: length_fst_simil_pairs)
  from foldl_update_hit[of "\<lambda>k. packed_offset n k k" "[0..<n]" i "fst (simil_pairs dfunc col n)"
      "\<lambda>k. snd (simil_pairs dfunc col n)", OF inj _ bound] assms
  show ?thesis by (simp add: get_similarity_def Let_def)
qed

lemma min_val_lower:
  assumes "a < b" "b < n"
  shows "snd (simil_pairs dfunc col n) \<le> - dfunc (col ! a) (col ! b)"
proof -
  have "(a, b) \<in> set (upper_pairs n)" using assms by (simp add: set_upper_pairs)
  with foldl_min_lower[of "\<lambda>p. - dfunc (col ! fst p) (col ! snd p)" dbl_max "upper_pairs n"]
  show ?thesis by (auto simp: simil_pairs_flat snd_simil_fold)
qed

lemma min_val_attained:
  "snd (simil_pairs dfunc col n) = dbl_max \<or>
   (\<exists>a b. a < b \<and> b < n \<and> snd (simil_pairs dfunc col n) = - dfunc (col ! a) (col ! b))"
  using foldl_min_attained[of "\<lambda>p. - dfunc (col ! fst p) (col ! snd p)" dbl_max "upper_pairs n"]
  by (auto simp: simil_pairs_flat snd_simil_fold set_upper_pairs)

lemma length_get_similarity: "length (get_similarity dfunc col n) = (n * (n + 1)) div 2"
  by (simp add: get_similarity_def Let_def length_foldl_update length_fst_simil_pairs)

subsection \<open>The message passing\<close>

text \<open>
  What the responsibility pass stores for the pair \<open>(i, j)\<close>, with the similarity read the
  way the source reads it, \<open>simil_at\<close>, also when \<open>j < i\<close>.
\<close>

lemma rounds_count: "snd (rounds n d simil csize st) = n"
  by (induction n arbitrary: st) (simp_all add: Let_def)

lemma rounds_funpow: "fst (rounds n d simil csize st) = ((round_step d simil csize) ^^ n) st"
  by (induction n arbitrary: st) (simp_all add: Let_def funpow_swap1)

lemma update_respon_flat:
  "update_respon d simil avail n respon =
     foldl (\<lambda>r p. r[snd p * n + fst p :=
                     (1 - d) * (simil_at simil n (fst p) (snd p) - max_diff simil avail n (fst p) (snd p)) +
                     d * r ! (snd p * n + fst p)])
       respon (List.product [0..<n] [0..<n])"
proof -
  have "List.product xs ys = concat (map (\<lambda>i. map (Pair i) ys) xs)" for xs ys :: "nat list"
    by (induction xs) simp_all
  then show ?thesis
    unfolding update_respon_def
    using foldl_nested[of "respon_step d simil avail n" "\<lambda>i. [0..<n]" respon "[0..<n]"]
    by (simp add: respon_step_def[abs_def] simil_at_def)
qed

lemma update_respon_nth:
  assumes "i < n" "j < n" "length respon = n * n"
  shows "update_respon d simil avail n respon ! (j * n + i) =
     (1 - d) * (simil_at simil n i j - max_diff simil avail n i j) + d * respon ! (j * n + i)"
proof -
  let ?f = "\<lambda>p. snd p * n + fst p"
  let ?ps = "List.product [0..<n] [0..<n]"
  have dist: "distinct ?ps" by (simp add: distinct_product)
  have inj: "inj_on ?f (set ?ps)"
  proof (rule inj_onI)
    fix p q assume "p \<in> set ?ps" "q \<in> set ?ps" "?f p = ?f q"
    then have "fst p < n" "fst q < n" "snd p * n + fst p = snd q * n + fst q" by auto
    from cell_inj[OF this] show "p = q" by (simp add: prod_eq_iff)
  qed
  have mem: "(i, j) \<in> set ?ps" using assms by simp
  have bound: "?f (i, j) < length respon" using assms cell_bound[of i n j] by simp
  from foldl_update_self_hit[of ?ps ?f "(i, j)" respon
      "\<lambda>p old. (1 - d) * (simil_at simil n (fst p) (snd p) - max_diff simil avail n (fst p) (snd p)) + d * old",
      OF dist inj mem bound]
  show ?thesis by (simp add: update_respon_flat)
qed

lemma diff_fold_max:
  "foldl (diff_step simil avail n i) m js =
     Max (insert m ((\<lambda>jj. simil_at simil n i jj + avail ! (jj * n + i)) ` set js))"
proof (induction js rule: rev_induct)
  case Nil
  show ?case by simp
next
  case (snoc j js)
  let ?g = "\<lambda>jj. simil_at simil n i jj + avail ! (jj * n + i)"
  have "foldl (diff_step simil avail n i) m (js @ [j]) =
      diff_step simil avail n i (foldl (diff_step simil avail n i) m js) j"
    by simp
  also have "\<dots> = max (?g j) (foldl (diff_step simil avail n i) m js)"
    by (simp add: diff_step_def Let_def simil_at_def max_def)
  also have "\<dots> = max (?g j) (Max (insert m (?g ` set js)))"
    by (simp only: snoc.IH)
  also have "\<dots> = Max (insert (?g j) (insert m (?g ` set js)))"
    by (subst Max_insert) simp_all
  also have "insert (?g j) (insert m (?g ` set js)) = insert m (?g ` set (js @ [j]))"
    by auto
  finally show ?case .
qed

lemma max_diff_Max:
  assumes "j < n"
  shows "max_diff simil avail n i j =
     Max (insert (- dbl_max)
            ((\<lambda>jj. simil_at simil n i jj + avail ! (jj * n + i)) ` {jj. jj < n \<and> jj \<noteq> j}))"
proof -
  let ?g = "\<lambda>jj. simil_at simil n i jj + avail ! (jj * n + i)"
  have "max_diff simil avail n i j = foldl (diff_step simil avail n i) (- dbl_max) ([0..<j] @ [j + 1..<n])"
    by (simp add: max_diff_def)
  also have "\<dots> = Max (insert (- dbl_max) (?g ` set ([0..<j] @ [j + 1..<n])))"
    by (rule diff_fold_max)
  also have "set ([0..<j] @ [j + 1..<n]) = {jj. jj < n \<and> jj \<noteq> j}"
    using assms by auto
  finally show ?thesis .
qed

text \<open>
  The vectors keep their sizes, \<open>n (n + 1) / 2\<close> and \<open>n n\<close>, so with \<open>packed_offset_bound_any\<close>
  and \<open>cell_bound\<close> every read and write of the engine is inside its vector.
\<close>

lemma length_update_respon: "length (update_respon d simil avail n respon) = length respon"
proof -
  have 1: "length (respon_step d simil avail n i r j) = length r" for i r j
    by (simp add: respon_step_def)
  have 2: "length (foldl (respon_step d simil avail n i) r js) = length r" for i r js
    by (rule length_foldl_steps) (rule 1)
  show ?thesis unfolding update_respon_def
    by (rule length_foldl_steps) (rule 2)
qed

lemma length_update_avail: "length (update_avail d respon n avail) = length avail"
proof -
  have 1: "length (avail_step d respon n i a j) = length a" for i a j
    by (simp add: avail_step_def Let_def)
  have 2: "length (foldl (avail_step d respon n i) a js) = length a" for i a js
    by (rule length_foldl_steps) (rule 1)
  show ?thesis unfolding update_avail_def
    by (rule length_foldl_steps) (rule 2)
qed

lemma length_round_step:
  "length (fst (round_step d simil n st)) = length (fst st) \<and>
   length (snd (round_step d simil n st)) = length (snd st)"
  by (simp add: round_step_def Let_def length_update_respon length_update_avail)

lemma length_messages:
  "length (fst (get_avail_and_respon iter_num d simil n)) = n * n \<and>
   length (snd (get_avail_and_respon iter_num d simil n)) = n * n"
proof -
  have "length (fst (((round_step d simil n) ^^ k) st)) = length (fst st) \<and>
        length (snd (((round_step d simil n) ^^ k) st)) = length (snd st)" for k st
    by (induction k) (simp_all add: length_round_step)
  then show ?thesis
    by (simp add: get_avail_and_respon_def rounds_funpow)
qed

subsection \<open>The selection\<close>

lemma select_fold:
  "foldl (select_step col csize avail respon) view js =
     view @ map (Elem col) (filter (\<lambda>i. respon ! (i * csize + i) + avail ! (i * csize + i) > 0) js)"
  by (induction js arbitrary: view) (simp_all add: select_step_def)

lemma ap_compute_centers:
  assumes "min idx_size (length col) = csize"
    and "get_similarity (ap_dfunc v) col csize = simil"
    and "get_avail_and_respon (ap_iter_num v) (dfactor v) simil csize = (avail, respon)"
  shows "centers (ap_compute v idx_size col) =
     centers v @ map (Elem col) (filter (\<lambda>i. respon ! (i * csize + i) + avail ! (i * csize + i) > 0) [0..<csize])"
  using assms by (simp add: ap_compute_def Let_def select_fold)

lemma ap_compute_fields:
  "ap_iter_num (ap_compute v idx_size col) = ap_iter_num v"
  "ap_dfunc (ap_compute v idx_size col) = ap_dfunc v"
  "dfactor (ap_compute v idx_size col) = dfactor v"
  by (simp_all add: ap_compute_def Let_def)

lemma compute_appends_selected:
  "let csize = min idx_size (length col);
       ar = get_avail_and_respon (ap_iter_num v) (dfactor v) (get_similarity (ap_dfunc v) col csize) csize
   in ap_get_result (ap_compute v idx_size col) =
        ap_get_result v @
        map (Elem col)
          (filter (\<lambda>i. snd ar ! (i * csize + i) + fst ar ! (i * csize + i) > 0) [0..<csize])"
  by (simp add: ap_compute_def ap_get_result_def Let_def select_fold)

lemma fresh_compute_selects:
  "let csize = min idx_size (length col);
       ar = get_avail_and_respon iter_num d (get_similarity dfunc col csize) csize;
       result = ap_get_result (ap_compute (new_AffinityPropVisitor iter_num dfunc d) idx_size col)
   in (\<forall>i. Elem col i \<in> set result \<longleftrightarrow>
             i < csize \<and> snd ar ! (i * csize + i) + fst ar ! (i * csize + i) > 0) \<and>
      result = map (Elem col)
                 (filter (\<lambda>i. snd ar ! (i * csize + i) + fst ar ! (i * csize + i) > 0) [0..<csize]) \<and>
      distinct result \<and> length result \<le> csize"
proof -
  let ?csize = "min idx_size (length col)"
  let ?ar = "get_avail_and_respon iter_num d (get_similarity dfunc col ?csize) ?csize"
  let ?v = "new_AffinityPropVisitor iter_num dfunc d"
  let ?sel = "filter (\<lambda>i. snd ?ar ! (i * ?csize + i) + fst ?ar ! (i * ?csize + i) > 0) [0..<?csize]"
  have "centers (ap_compute ?v idx_size col) = centers ?v @ map (Elem col) ?sel"
    by (rule ap_compute_centers) (simp_all add: new_AffinityPropVisitor_def)
  then have r: "ap_get_result (ap_compute ?v idx_size col) = map (Elem col) ?sel"
    by (simp add: ap_get_result_def new_AffinityPropVisitor_def)
  have "length ?sel \<le> length [0..<?csize]" by (rule length_filter_le)
  then have l: "length (map (Elem col) ?sel) \<le> ?csize" by simp
  have d: "distinct (map (Elem col) ?sel)" by (simp add: distinct_map inj_on_def)
  show ?thesis unfolding Let_def r using l d by auto
qed

lemma ap_compute_rounds:
  "let csize = min idx_size (length col);
       simil = get_similarity (ap_dfunc v) col csize;
       ar = ((round_step (dfactor v) simil csize) ^^ ap_iter_num v)
              (replicate (csize * csize) 0, replicate (csize * csize) 0)
   in ap_compute v idx_size col =
        v\<lparr>centers := centers v @ map (Elem col)
          (filter (\<lambda>i. snd ar ! (i * csize + i) + fst ar ! (i * csize + i) > 0) [0..<csize])\<rparr>"
  by (simp add: ap_compute_def Let_def select_fold get_avail_and_respon_def rounds_funpow)

section \<open>Worked examples\<close>

text \<open>
  The inputs are chosen so that the double arithmetic of the source is exact on them and
  agrees with the model. Two places involve the largest double. On a column of one point
  the diagonal similarity is \<open>dbl_max\<close> and the responsibility is
  \<open>(1 - d) (dbl_max + dbl_max)\<close>: infinite in the source, \<open>dbl_max\<close> here for \<open>d = 1/2\<close>,
  positive in both. The squared distance between 0 and \<open>2\<^sup>5\<^sup>1\<^sup>2\<close> is \<open>2\<^sup>1\<^sup>0\<^sup>2\<^sup>4\<close>: infinite
  in the source, above \<open>dbl_max\<close> here, not below \<open>dbl_max\<close> in both.
\<close>

subsection \<open>The column 0, 1, 3 under the default distance, damping 1/2, one round\<close>

lemma ex3_simil: "get_similarity default_dfunc [0, 1, 3] 3 = [- 9, - 1, - 9, - 9, - 4, - 9]"
  unfolding get_similarity_def simil_pairs_def outer_turns_def size_t_pred_def simil_row_def
    simil_step_def packed_offset_def
    default_dfunc_def Let_def
  by (simp add: upt_unfold replicate_unfold dbl_max_def)

lemma ex3_respon:
  "update_respon (1 / 2) [- 9, - 1, - 9, - 9, - 4, - 9] [0, 0, 0, 0, 0, 0, 0, 0, 0] 3
     [0, 0, 0, 0, 0, 0, 0, 0, 0] =
   [- 4, - (5 / 2), - (5 / 2), 4, - (5 / 2), 5 / 2, - 4, 5 / 2, - (5 / 2)]"
  unfolding update_respon_def respon_step_def max_diff_def diff_step_def packed_offset_def Let_def
  by (simp add: upt_unfold dbl_max_def)

lemma ex3_avail:
  "update_avail (1 / 2) [- 4, - (5 / 2), - (5 / 2), 4, - (5 / 2), 5 / 2, - 4, 5 / 2, - (5 / 2)] 3
     [0, 0, 0, 0, 0, 0, 0, 0, 0] =
   [0, - 2, - 2, 0, 13 / 4, 0, 0, - (5 / 4), 5 / 4]"
  unfolding update_avail_def avail_step_def pos_sum_def Let_def
  by (simp add: upt_unfold)

lemma ex3_messages:
  "get_avail_and_respon 1 (1 / 2) [- 9, - 1, - 9, - 9, - 4, - 9] 3 =
     ([0, - 2, - 2, 0, 13 / 4, 0, 0, - (5 / 4), 5 / 4],
      [- 4, - (5 / 2), - (5 / 2), 4, - (5 / 2), 5 / 2, - 4, 5 / 2, - (5 / 2)])"
  by (simp only: get_avail_and_respon_def rounds_1 round_step_def Let_def zeros9 fst_conv snd_conv
        ex3_respon ex3_avail)

lemma ex3_selected:
  "filter (\<lambda>i. [- 4, - (5 / 2), - (5 / 2), 4, - (5 / 2), 5 / 2, - 4, 5 / 2, - (5 / 2)] ! (i * 3 + i) +
               [0, - 2, - 2, 0, 13 / 4, 0, 0, - (5 / 4), 5 / (4::real)] ! (i * 3 + i) > 0) [0..<3] = [1]"
  by (simp add: upt_unfold)

lemma ex3_compute:
  assumes "ap_iter_num v = 1" "ap_dfunc v = default_dfunc" "dfactor v = 1 / 2"
  shows "centers (ap_compute v 3 [0, 1, 3]) = centers v @ [Elem [0, 1, 3] 1]"
proof -
  have "centers (ap_compute v 3 [0, 1, 3]) = centers v @ map (Elem [0, 1, 3])
      (filter (\<lambda>i. [- 4, - (5 / 2), - (5 / 2), 4, - (5 / 2), 5 / 2, - 4, 5 / 2, - (5 / 2)] ! (i * 3 + i) +
               [0, - 2, - 2, 0, 13 / 4, 0, 0, - (5 / 4), 5 / (4::real)] ! (i * 3 + i) > 0) [0..<3])"
  proof (rule ap_compute_centers)
    show "min 3 (length [0, 1, 3::real]) = 3" by simp
    show "get_similarity (ap_dfunc v) [0, 1, 3] 3 = [- 9, - 1, - 9, - 9, - 4, - 9]"
      by (simp only: assms ex3_simil)
    show "get_avail_and_respon (ap_iter_num v) (dfactor v) [- 9, - 1, - 9, - 9, - 4, - 9] 3 =
      ([0, - 2, - 2, 0, 13 / 4, 0, 0, - (5 / 4), 5 / 4],
       [- 4, - (5 / 2), - (5 / 2), 4, - (5 / 2), 5 / 2, - 4, 5 / 2, - (5 / 2)])"
      by (simp only: assms ex3_messages)
  qed
  then show ?thesis by (simp only: ex3_selected) simp
qed

lemma ex3_spec_respon:
  "spec_respon (1 / 2) [- 9, - 1, - 9, - 9, - 4, - 9] [0, 0, 0, 0, 0, 0, 0, 0, 0]
     [0, 0, 0, 0, 0, 0, 0, 0, 0] 3 1 2 = - (3 / 2)"
  unfolding spec_respon_def spec_similarity_def packed_offset_def
  by (simp add: upt_unfold)

lemma ex3_dist: "\<forall>j<3. \<forall>i<2. default_dfunc ([0, 1, 3] ! j) ([0, 10] ! i) < dbl_max"
proof (intro allI impI)
  fix j i :: nat assume "j < 3" "i < 2"
  then have "(j = 0 \<or> j = 1 \<or> j = 2) \<and> (i = 0 \<or> i = 1)" by arith
  then show "default_dfunc ([0, 1, 3] ! j) ([0, 10] ! i) < dbl_max"
    by (elim conjE disjE) (simp_all add: default_dfunc_def dbl_max_def)
qed

lemma ex3_dist_ap: "\<forall>j<3. default_dfunc ([0, 1, 3] ! j) 1 < dbl_max"
proof (intro allI impI)
  fix j :: nat assume "j < 3"
  then have "j = 0 \<or> j = 1 \<or> j = 2" by arith
  then show "default_dfunc ([0, 1, 3] ! j) 1 < dbl_max"
    by (elim disjE) (simp_all add: default_dfunc_def dbl_max_def)
qed

subsection \<open>A column of one point and a column of two\<close>

lemma ex1_simil: "get_similarity dfunc [x] 1 = [dbl_max]"
  unfolding get_similarity_def simil_pairs_def outer_turns_def size_t_pred_def simil_row_def
    simil_step_def packed_offset_def Let_def
  by (simp add: upt_unfold replicate_unfold)

lemma ex1_messages: "get_avail_and_respon 1 (1 / 2) [dbl_max] 1 = ([0], [dbl_max])"
proof -
  have r: "update_respon (1 / 2) [dbl_max] [0] 1 [0] = [dbl_max]"
    unfolding update_respon_def respon_step_def max_diff_def diff_step_def packed_offset_def Let_def
    by (simp add: upt_unfold)
  have a: "update_avail (1 / 2) [dbl_max] 1 [0] = [0]"
    unfolding update_avail_def avail_step_def pos_sum_def Let_def
    by (simp add: upt_unfold)
  have z: "replicate (1 * 1) (0::real) = [0]" by simp
  show ?thesis
    by (simp only: get_avail_and_respon_def rounds_1 round_step_def Let_def z fst_conv snd_conv r a)
qed

lemma ex1_compute:
  assumes "ap_iter_num v = 1" "dfactor v = 1 / 2"
  shows "centers (ap_compute v 1 [x]) = centers v @ [Elem [x] 0]"
proof -
  have "centers (ap_compute v 1 [x]) = centers v @ map (Elem [x])
      (filter (\<lambda>i. [dbl_max] ! (i * 1 + i) + [0] ! (i * 1 + i) > 0) [0..<1])"
  proof (rule ap_compute_centers)
    show "min 1 (length [x]) = 1" by simp
    show "get_similarity (ap_dfunc v) [x] 1 = [dbl_max]" by (rule ex1_simil)
    show "get_avail_and_respon (ap_iter_num v) (dfactor v) [dbl_max] 1 = ([0], [dbl_max])"
      by (simp only: assms ex1_messages)
  qed
  moreover have "filter (\<lambda>i. [dbl_max] ! (i * 1 + i) + [0] ! (i * 1 + i) > 0) [0..<1] = [0]"
    by (simp add: upt_unfold dbl_max_pos)
  ultimately show ?thesis by simp
qed

lemma first_point_simil: "get_similarity dfunc col 1 = [dbl_max]"
  unfolding get_similarity_def simil_pairs_def outer_turns_def size_t_pred_def simil_row_def
    simil_step_def packed_offset_def Let_def
  by (simp add: upt_unfold replicate_unfold)

lemma first_point_compute:
  assumes "ap_iter_num v = 1" "dfactor v = 1 / 2" "min idx_size (length col) = 1"
  shows "centers (ap_compute v idx_size col) = centers v @ [Elem col 0]"
proof -
  have "centers (ap_compute v idx_size col) = centers v @ map (Elem col)
      (filter (\<lambda>i. [dbl_max] ! (i * 1 + i) + [0] ! (i * 1 + i) > 0) [0..<1])"
  proof (rule ap_compute_centers)
    show "min idx_size (length col) = 1" by (rule assms(3))
    show "get_similarity (ap_dfunc v) col 1 = [dbl_max]" by (rule first_point_simil)
    show "get_avail_and_respon (ap_iter_num v) (dfactor v) [dbl_max] 1 = ([0], [dbl_max])"
      by (simp only: assms ex1_messages)
  qed
  moreover have "filter (\<lambda>i. [dbl_max] ! (i * 1 + i) + [0] ! (i * 1 + i) > 0) [0..<1] = [0]"
    by (simp add: upt_unfold dbl_max_pos)
  ultimately show ?thesis by simp
qed

lemma ex2_simil: "get_similarity default_dfunc [0, 1] 2 = [- 1, - 1, - 1]"
  unfolding get_similarity_def simil_pairs_def outer_turns_def size_t_pred_def simil_row_def
    simil_step_def packed_offset_def
    default_dfunc_def Let_def
  by (simp add: upt_unfold replicate_unfold dbl_max_def)

lemma ex2_messages: "get_avail_and_respon 1 (1 / 2) [- 1, - 1, - 1] 2 = ([0, 0, 0, 0], [0, 0, 0, 0])"
proof -
  have r: "update_respon (1 / 2) [- 1, - 1, - 1] [0, 0, 0, 0] 2 [0, 0, 0, 0] = [0, 0, 0, 0]"
    unfolding update_respon_def respon_step_def max_diff_def diff_step_def packed_offset_def Let_def
    by (simp add: upt_unfold dbl_max_def)
  have a: "update_avail (1 / 2) [0, 0, 0, 0] 2 [0, 0, 0, 0] = [0, 0, 0, 0]"
    unfolding update_avail_def avail_step_def pos_sum_def Let_def
    by (simp add: upt_unfold)
  have z: "replicate (2 * 2) (0::real) = [0, 0, 0, 0]" by (simp add: replicate_unfold)
  show ?thesis
    by (simp only: get_avail_and_respon_def rounds_1 round_step_def Let_def z fst_conv snd_conv r a)
qed

lemma ex2_compute:
  assumes "ap_iter_num v = 1" "ap_dfunc v = default_dfunc" "dfactor v = 1 / 2"
  shows "centers (ap_compute v 2 [0, 1]) = centers v"
proof -
  have "centers (ap_compute v 2 [0, 1]) = centers v @ map (Elem [0, 1])
      (filter (\<lambda>i. [0, 0, 0, 0] ! (i * 2 + i) + [0, 0, 0, 0::real] ! (i * 2 + i) > 0) [0..<2])"
  proof (rule ap_compute_centers)
    show "min 2 (length [0, 1::real]) = 2" by simp
    show "get_similarity (ap_dfunc v) [0, 1] 2 = [- 1, - 1, - 1]" by (simp only: assms ex2_simil)
    show "get_avail_and_respon (ap_iter_num v) (dfactor v) [- 1, - 1, - 1] 2 = ([0, 0, 0, 0], [0, 0, 0, 0])"
      by (simp only: assms ex2_messages)
  qed
  moreover have "filter (\<lambda>i. [0, 0, 0, 0] ! (i * 2 + i) + [0, 0, 0, 0::real] ! (i * 2 + i) > 0) [0..<2] = []"
    by (simp add: upt_unfold)
  ultimately show ?thesis by simp
qed

lemma ex2_simil_asym:
  "get_similarity (\<lambda>x y. if x \<le> y then y - x else 2 * (x - y)) [0, 1::real] 2 = [- 1, - 1, - 1]"
  unfolding get_similarity_def simil_pairs_def outer_turns_def size_t_pred_def simil_row_def
    simil_step_def packed_offset_def Let_def
  by (simp add: upt_unfold replicate_unfold dbl_max_def)

lemma ex2_simil_far:
  assumes "dbl_max \<le> - dfunc x y"
  shows "get_similarity dfunc [x, y] 2 = [dbl_max, - dfunc x y, dbl_max]"
  unfolding get_similarity_def simil_pairs_def outer_turns_def size_t_pred_def simil_row_def
    simil_step_def packed_offset_def Let_def
  using assms by (simp add: upt_unfold replicate_unfold)

subsection \<open>Passes of the centroid engine\<close>

lemma ex_assign: "find_assignments default_dfunc [0, 10] [0, 1 / 4096, 10, 20] 4 = [0, 0, 1, 1]"
  unfolding find_assignments_def best_cluster_def best_step_def default_dfunc_def Let_def
  by (simp add: upt_unfold dbl_max_def)

lemma ex_sums: "sum_and_count 2 [0, 1 / 4096, 10, 20] 4 [0, 0, 1, 1] = ([1 / 4096, 30], [2, 2])"
  unfolding sum_and_count_def sum_step_def Let_def
  by (simp add: upt_unfold replicate_unfold)

lemma ex_update: "update_means default_dfunc [1 / 4096, 30] [2, 2] [0, 10] = (False, [0, 15])"
  unfolding update_means_def update_step_def candidate_def divisor_def default_dfunc_def Let_def
  by (simp add: upt_unfold)

lemma ex_iteration: "iteration default_dfunc [0, 1 / 4096, 10, 20] 4 [0, 10] = (False, [0, 15])"
  by (simp only: iteration_def Let_def length2 ex_assign ex_sums fst_conv snd_conv ex_update)

lemma ex_new_centroid:
  "new_centroid default_dfunc [0, 1 / 4096, 10, 20] 4 [0, 10] 0 = 1 / 8192"
proof -
  have "candidate [1 / 4096, 30] [2, 2] 0 = 1 / 8192"
    by (simp add: candidate_def divisor_def)
  then show ?thesis
    by (simp only: new_centroid_def Let_def length2 ex_assign ex_sums fst_conv snd_conv)
qed

lemma ex_converged: "iteration default_dfunc [0, 0, 10, 10] 4 [0, 10] = (True, [0, 10])"
proof -
  have a: "find_assignments default_dfunc [0, 10] [0, 0, 10, 10] 4 = [0, 0, 1, 1]"
    unfolding find_assignments_def best_cluster_def best_step_def default_dfunc_def Let_def
    by (simp add: upt_unfold dbl_max_def)
  have s: "sum_and_count 2 [0, 0, 10, 10] 4 [0, 0, 1, 1] = ([0, 20], [2, 2])"
    unfolding sum_and_count_def sum_step_def Let_def
    by (simp add: upt_unfold replicate_unfold)
  have u: "update_means default_dfunc [0, 20] [2, 2] [0, 10] = (True, [0, 10])"
    unfolding update_means_def update_step_def candidate_def divisor_def default_dfunc_def Let_def
    by (simp add: upt_unfold)
  show ?thesis
    by (simp only: iteration_def Let_def length2 a s fst_conv snd_conv u)
qed

lemma ex0_assign: "find_assignments default_dfunc [0, 0] [0, 1] 2 = [0, 0]"
  unfolding find_assignments_def best_cluster_def best_step_def default_dfunc_def Let_def
  by (simp add: upt_unfold dbl_max_def)

lemma ex0_sums: "sum_and_count 2 [0, 1] 2 [0, 0] = ([1, 0], [2, 0])"
  unfolding sum_and_count_def sum_step_def Let_def
  by (simp add: upt_unfold replicate_unfold)

lemma ex_dist: "\<forall>j<3. \<forall>i<2. default_dfunc ([0, 1, 9] ! j) ([0, 10] ! i) < dbl_max"
proof (intro allI impI)
  fix j i :: nat assume "j < 3" "i < 2"
  then have "(j = 0 \<or> j = 1 \<or> j = 2) \<and> (i = 0 \<or> i = 1)" by arith
  then show "default_dfunc ([0, 1, 9] ! j) ([0, 10] ! i) < dbl_max"
    by (elim conjE disjE) (simp_all add: default_dfunc_def dbl_max_def)
qed

subsection \<open>A centroid farther away than the largest double\<close>

lemma ex_far: "\<not> default_dfunc 0 (2 ^ 512) < dbl_max"
proof -
  have "default_dfunc 0 (2 ^ 512) = (2::real) ^ 1024"
    by (simp add: default_dfunc_def power_add[symmetric])
  with dbl_max_lt show ?thesis by simp
qed

lemma ex_far_min_idx: "min_idx default_dfunc [1, 2 ^ 512] 0 = Some 0"
proof -
  have a: "default_dfunc 0 1 < dbl_max" by (simp add: default_dfunc_def dbl_max_def)
  have b: "\<not> default_dfunc 0 (2 ^ 512) < default_dfunc 0 1"
    by (simp add: default_dfunc_def power_add[symmetric])
  have u: "[0..<length [1, 2 ^ 512 :: real]] = [0, 1]" by (simp add: upt_unfold)
  show ?thesis
    unfolding min_idx_def u min_step_def Let_def
    using a b by simp
qed

lemma ex_far_clusters:
  "km_get_clusters \<lparr>km_iter_num = 1, km_dfunc = default_dfunc, k_means = [1, 2 ^ 512]\<rparr> 1 [0] =
     Inr [[Mean 0, Elem [0] 0], [Mean 1]]"
proof -
  have u: "[0..<min 1 (length [0::real])] = [0]" "[0..<length [1, 2 ^ 512 :: real]] = [0, 1]"
    by (simp_all add: upt_unfold)
  show ?thesis
    unfolding km_get_clusters_def K_def Let_def
    by (simp only: KMeansVisitor.simps u push_points.simps nth_Cons_0 ex_far_min_idx option.case
        list.map list_update.simps append.simps nat.case)
qed

section \<open>How the loops end\<close>

text \<open>
  The message-passing loop has no exit but its counter: it is the configured number of
  applications of one round. The refinement loop makes at most the configured number of
  passes and, when it makes fewer, its last pass ended with \<^verbatim>\<open>done\<close> set. Compute of the
  centroid engine returns a result, with \<open>K\<close> centroids, when there is at least one centroid
  and the random draws are positions of the column below the effective size.
\<close>

lemma loops_end:
  "snd (rounds iter_num d simil csize st) = iter_num \<and>
   fst (rounds iter_num d simil csize st) = ((round_step d simil csize) ^^ iter_num) st \<and>
   get_avail_and_respon iter_num d simil csize =
     ((round_step d simil csize) ^^ iter_num) (replicate (csize * csize) 0, replicate (csize * csize) 0) \<and>
   (\<exists>c\<le>iter_num.
      refine iter_num dfunc col col_size means = (((pass_means dfunc col col_size) ^^ c) means, c) \<and>
      (c < iter_num \<longrightarrow>
         0 < c \<and> pass_done dfunc col col_size (((pass_means dfunc col col_size) ^^ (c - 1)) means))) \<and>
   (1 \<le> K v \<and> (\<forall>i<K v. rd_gen i < min idx_size (length col')) \<longrightarrow>
      (\<exists>v'. km_compute v idx_size col' rd_gen = Inr v' \<and> K v' = K v \<and>
         k_means v' = fst (refine (km_iter_num v) (km_dfunc v) col' (min idx_size (length col'))
                             (map (\<lambda>i. col' ! rd_gen i) [0..<K v]))))"
proof (intro conjI impI)
  show "snd (rounds iter_num d simil csize st) = iter_num" by (rule rounds_count)
  show "fst (rounds iter_num d simil csize st) = ((round_step d simil csize) ^^ iter_num) st"
    by (rule rounds_funpow)
  show "get_avail_and_respon iter_num d simil csize =
     ((round_step d simil csize) ^^ iter_num) (replicate (csize * csize) 0, replicate (csize * csize) 0)"
    by (simp only: get_avail_and_respon_def rounds_funpow)
  show "\<exists>c\<le>iter_num.
      refine iter_num dfunc col col_size means = (((pass_means dfunc col col_size) ^^ c) means, c) \<and>
      (c < iter_num \<longrightarrow>
         0 < c \<and> pass_done dfunc col col_size (((pass_means dfunc col col_size) ^^ (c - 1)) means))"
    using refine_char[of iter_num dfunc col col_size means] by blast
next
  assume "1 \<le> K v \<and> (\<forall>i<K v. rd_gen i < min idx_size (length col'))"
  then show "\<exists>v'. km_compute v idx_size col' rd_gen = Inr v' \<and> K v' = K v \<and>
         k_means v' = fst (refine (km_iter_num v) (km_dfunc v) col' (min idx_size (length col'))
                             (map (\<lambda>i. col' ! rd_gen i) [0..<K v]))"
    using km_compute_Inr[of v rd_gen idx_size col'] by blast
qed

text \<open>
  Ten configured rounds are ten rounds; on the column 0, 0, 10, 10 with the draws 0 and
  2 the first pass converges and the loop stops after it, nine passes short of the cap.
\<close>

lemma loops_end_example:
  "snd (rounds 10 (9 / 10) [- 9, - 1, - 9, - 9, - 4, - 9] 3 (replicate 9 0, replicate 9 0)) = 10 \<and>
   refine 10 default_dfunc [0, 0, 10, 10] 4 [0, 10] = ([0, 10], 1) \<and>
   pass_done default_dfunc [0, 0, 10, 10] 4 [0, 10] \<and>
   (\<exists>v'. km_compute (new_KMeansVisitor 2 10 default_dfunc) 4 [0, 0, 10, 10] (\<lambda>i. 2 * i) = Inr v' \<and>
         K v' = 2)"
proof -
  define v where "v = new_KMeansVisitor 2 10 default_dfunc"
  have k: "K v = 2" by (simp add: v_def K_def new_KMeansVisitor_def)
  note t = loops_end[where iter_num = 10 and d = "9 / 10"
      and simil = "[- 9, - 1, - 9, - 9, - 4, - 9]" and csize = 3
      and st = "(replicate 9 0, replicate 9 0)" and dfunc = default_dfunc
      and col = "[0, 0, 10, 10]" and col_size = 4 and means = "[0, 10]" and v = v
      and rd_gen = "\<lambda>i. 2 * i" and idx_size = 4 and col' = "[0, 0, 10, 10]"]
  have pd: "pass_done default_dfunc [0, 0, 10, 10] 4 [0, 10]"
    by (simp only: pass_done_def ex_converged fst_conv)
  have pm: "pass_means default_dfunc [0, 0, 10, 10] 4 [0, 10] = [0, 10]"
    by (simp only: pass_means_def ex_converged snd_conv)
  from t have 1: "snd (rounds 10 (9 / 10) [- 9, - 1, - 9, - 9, - 4, - 9] 3 (replicate 9 0, replicate 9 0)) = 10"
    by (rule conjunct1)
  have r1: "refine 10 default_dfunc [0, 0, 10, 10] 4 [0, 10] = ([0, 10], 1)"
    using refine_first_converged[of 0 10 default_dfunc "[0, 0, 10, 10]" 4 "[0, 10]"] pd pm by simp
  have h: "1 \<le> K v \<and> (\<forall>i<K v. (\<lambda>i. 2 * i) i < min 4 (length [0, 0, 10, 10::real]))"
    by (auto simp: k)
  have "\<exists>v'. km_compute v 4 [0, 0, 10, 10] (\<lambda>i. 2 * i) = Inr v' \<and> K v' = K v \<and>
         k_means v' = fst (refine (km_iter_num v) (km_dfunc v) [0, 0, 10, 10] (min 4 (length [0, 0, 10, 10::real]))
                             (map (\<lambda>i. [0, 0, 10, 10] ! (2 * i)) [0..<K v]))"
    by (rule t[THEN conjunct2, THEN conjunct2, THEN conjunct2, THEN conjunct2, rule_format, OF h])
  then have "\<exists>v'. km_compute v 4 [0, 0, 10, 10] (\<lambda>i. 2 * i) = Inr v' \<and> K v' = K v"
    by blast
  then have 3: "\<exists>v'. km_compute (new_KMeansVisitor 2 10 default_dfunc) 4 [0, 0, 10, 10] (\<lambda>i. 2 * i) = Inr v' \<and> K v' = 2"
    unfolding k unfolding v_def .
  from 1 r1 pd 3 show ?thesis by (intro conjI)
qed

section \<open>The claims\<close>

subsection \<open>C1: a second compute\<close>

text \<open>
  Claim C1: invoking compute again discards the earlier result, for both engines. The
  centroid engine does (\<open>km_compute_discards_state\<close>). The exemplar engine does not:
  \<^verbatim>\<open>operator()\<close> appends to \<^verbatim>\<open>centers_\<close> and nothing empties it. On the column 0, 1, 3 with
  one round and damping 1/2 the first compute elects position 1, and a second compute on
  the same instance leaves position 1 in the result twice.
\<close>

theorem recompute_accumulates:
  "ap_get_result (ap_compute (new_AffinityPropVisitor 1 default_dfunc (1 / 2)) 3 [0, 1, 3]) =
     [Elem [0, 1, 3] 1] \<and>
   ap_get_result
     (ap_compute (ap_compute (new_AffinityPropVisitor 1 default_dfunc (1 / 2)) 3 [0, 1, 3]) 3 [0, 1, 3]) =
     [Elem [0, 1, 3] 1, Elem [0, 1, 3] 1]"
proof -
  let ?v0 = "new_AffinityPropVisitor 1 default_dfunc (1 / 2) :: real AffinityPropVisitor"
  let ?v1 = "ap_compute ?v0 3 [0, 1, 3]"
  have 0: "ap_iter_num ?v0 = 1" "ap_dfunc ?v0 = default_dfunc" "dfactor ?v0 = 1 / 2" "centers ?v0 = []"
    by (simp_all add: new_AffinityPropVisitor_def)
  have 1: "ap_iter_num ?v1 = 1" "ap_dfunc ?v1 = default_dfunc" "dfactor ?v1 = 1 / 2"
    by (simp_all only: ap_compute_fields 0)
  have c1: "centers ?v1 = [Elem [0, 1, 3] 1]"
    by (simp only: ex3_compute[OF 0(1-3)] 0(4) append_Nil)
  have c2: "centers (ap_compute ?v1 3 [0, 1, 3]) = [Elem [0, 1, 3] 1, Elem [0, 1, 3] 1]"
    by (simp only: ex3_compute[OF 1] c1 append_Cons append_Nil)
  from c1 c2 show ?thesis by (simp only: ap_get_result_def) 
qed

subsection \<open>C2: the responsibility update\<close>

text \<open>
  Claim C2: the responsibility pass computes
  \<open>r(i,j) = (1-d) (s(i,j) - max over j' \<noteq> j of [s(i,j') + a(j',i)]) + d r_prev(i,j)\<close> with
  \<open>s\<close> the symmetric similarity. The pass is complete before the availability pass
  starts (\<open>round_step\<close>) and it has this shape (\<open>update_respon_nth\<close>, \<open>max_diff_Max\<close>), but
  it reads \<open>s(i,j')\<close> at the packed offset of \<open>(i, j')\<close> also when \<open>j' < i\<close>, where that
  offset can hold the similarity of another pair. On the column 0, 1, 3, first round,
  damping 1/2, for \<open>i = 1\<close> and \<open>j = 2\<close>: the source stores 5/2, the formula gives -3/2; the
  entry read for \<open>(1, 0)\<close> is -9, the similarity of the pair \<open>{0, 2}\<close>, where the pair
  \<open>{0, 1}\<close> has -1.
\<close>

theorem responsibility_reads_wrong_entry:
  "snd (get_avail_and_respon 1 (1 / 2) (get_similarity default_dfunc [0, 1, 3] 3) 3) ! (2 * 3 + 1) = 5 / 2 \<and>
   spec_respon (1 / 2) (get_similarity default_dfunc [0, 1, 3] 3) (replicate (3 * 3) 0)
     (replicate (3 * 3) 0) 3 1 2 = - (3 / 2) \<and>
   simil_at (get_similarity default_dfunc [0, 1, 3] 3) 3 1 0 = - 9 \<and>
   spec_similarity (get_similarity default_dfunc [0, 1, 3] 3) 3 1 0 = - 1"
proof -
  have 1: "snd (get_avail_and_respon 1 (1 / 2) (get_similarity default_dfunc [0, 1, 3] 3) 3) ! (2 * 3 + 1) = 5 / 2"
    by (simp only: ex3_simil ex3_messages snd_conv) simp
  have 2: "spec_respon (1 / 2) (get_similarity default_dfunc [0, 1, 3] 3) (replicate (3 * 3) 0)
     (replicate (3 * 3) 0) 3 1 2 = - (3 / 2)"
    by (simp only: ex3_simil zeros9 ex3_spec_respon)
  have 3: "simil_at (get_similarity default_dfunc [0, 1, 3] 3) 3 1 0 = - 9"
    by (simp only: ex3_simil) (simp add: simil_at_def packed_offset_def)
  have 4: "spec_similarity (get_similarity default_dfunc [0, 1, 3] 3) 3 1 0 = - 1"
    by (simp only: ex3_simil) (simp add: spec_similarity_def packed_offset_def)
  from 1 2 3 4 show ?thesis by (intro conjI)
qed

subsection \<open>C3: the convergence check\<close>

text \<open>
  Claim C3, as the code has it: a pass ends with \<^verbatim>\<open>done\<close> set exactly when every cluster's
  new centroid is within \<open>10\<^sup>-\<^sup>7\<close> of the old one; a cluster adopts its new centroid exactly
  when the two are farther apart than that, and keeps the old one otherwise, whether or
  not the loop goes on; the loop stops after the first pass that ends with \<^verbatim>\<open>done\<close> set,
  and with no such pass it makes exactly the configured number of passes.
\<close>

theorem convergence_check:
  "(pass_done dfunc col n means \<longleftrightarrow>
      (\<forall>c<length means. dfunc (new_centroid dfunc col n means c) (means ! c) \<le> 1 / 10000000)) \<and>
   (\<forall>c<length means. pass_means dfunc col n means ! c =
      (if dfunc (new_centroid dfunc col n means c) (means ! c) > 1 / 10000000
       then new_centroid dfunc col n means c else means ! c)) \<and>
   (\<forall>k<iter_num.
      pass_done dfunc col n (((pass_means dfunc col n) ^^ k) means) \<and>
      (\<forall>k'<k. \<not> pass_done dfunc col n (((pass_means dfunc col n) ^^ k') means)) \<longrightarrow>
      refine iter_num dfunc col n means = (((pass_means dfunc col n) ^^ Suc k) means, Suc k)) \<and>
   ((\<forall>k<iter_num. \<not> pass_done dfunc col n (((pass_means dfunc col n) ^^ k) means)) \<longrightarrow>
      refine iter_num dfunc col n means = (((pass_means dfunc col n) ^^ iter_num) means, iter_num))"
proof (intro conjI allI impI)
  show "pass_done dfunc col n means \<longleftrightarrow>
      (\<forall>c<length means. dfunc (new_centroid dfunc col n means c) (means ! c) \<le> 1 / 10000000)"
    by (rule pass_done_iff)
next
  fix c assume "c < length means"
  then show "pass_means dfunc col n means ! c =
      (if dfunc (new_centroid dfunc col n means c) (means ! c) > 1 / 10000000
       then new_centroid dfunc col n means c else means ! c)"
    by (rule pass_means_nth)
next
  fix k assume "k < iter_num"
    "pass_done dfunc col n (((pass_means dfunc col n) ^^ k) means) \<and>
      (\<forall>k'<k. \<not> pass_done dfunc col n (((pass_means dfunc col n) ^^ k') means))"
  then show "refine iter_num dfunc col n means = (((pass_means dfunc col n) ^^ Suc k) means, Suc k)"
    using refine_first_converged[of k iter_num dfunc col n means] by blast
next
  assume "\<forall>k<iter_num. \<not> pass_done dfunc col n (((pass_means dfunc col n) ^^ k) means)"
  then show "refine iter_num dfunc col n means = (((pass_means dfunc col n) ^^ iter_num) means, iter_num)"
    by (rule refine_never_converged)
qed

text \<open>
  The claim as stated says that without convergence the new centroids are adopted. On
  the column 0, 1/4096, 10, 20 with centroids 0 and 10 the pass does not converge, the
  new centroid of cluster 0 is 1/8192, and the pass keeps 0.
\<close>

theorem convergence_check_counterexample:
  "\<not> pass_done default_dfunc [0, 1 / 4096, 10, 20] 4 [0, 10] \<and>
   pass_means default_dfunc [0, 1 / 4096, 10, 20] 4 [0, 10] = [0, 15] \<and>
   new_centroid default_dfunc [0, 1 / 4096, 10, 20] 4 [0, 10] 0 = 1 / 8192"
  by (simp only: pass_done_def pass_means_def ex_iteration ex_new_centroid fst_conv snd_conv) simp

text \<open>
  The same pass, from the theorem: not converged, so one configured pass is made, and
  cluster 1, which moved, adopts its new centroid.
\<close>

theorem convergence_check_witness:
  "\<not> pass_done default_dfunc [0, 1 / 4096, 10, 20] 4 [0, 10] \<and>
   refine 1 default_dfunc [0, 1 / 4096, 10, 20] 4 [0, 10] = ([0, 15], 1) \<and>
   pass_means default_dfunc [0, 1 / 4096, 10, 20] 4 [0, 10] ! 1 =
     new_centroid default_dfunc [0, 1 / 4096, 10, 20] 4 [0, 10] 1"
proof -
  let ?col = "[0, 1 / 4096, 10, 20] :: real list"
  note t = convergence_check[of default_dfunc ?col 4 "[0, 10]" 1]
  have nd: "\<not> pass_done default_dfunc ?col 4 [0, 10]"
    by (simp only: pass_done_def ex_iteration fst_conv) simp
  then have "\<forall>k<1. \<not> pass_done default_dfunc ?col 4 (((pass_means default_dfunc ?col 4) ^^ k) [0, 10])"
    by simp
  with t have "refine 1 default_dfunc ?col 4 [0, 10] = (((pass_means default_dfunc ?col 4) ^^ 1) [0, 10], 1)"
    by blast
  then have r: "refine 1 default_dfunc ?col 4 [0, 10] = ([0, 15], 1)"
    by (simp add: pass_means_def ex_iteration)
  have "(1::nat) < length [0, 10::real]" by simp
  with t have "pass_means default_dfunc ?col 4 [0, 10] ! 1 =
      (if default_dfunc (new_centroid default_dfunc ?col 4 [0, 10] 1) ([0, 10] ! 1) > 1 / 10000000
       then new_centroid default_dfunc ?col 4 [0, 10] 1 else [0, 10] ! 1)"
    by blast
  moreover have "new_centroid default_dfunc ?col 4 [0, 10] 1 = 15"
  proof -
    have "candidate [1 / 4096, 30] [2, 2] 1 = 15"
      by (simp add: candidate_def divisor_def)
    then show ?thesis
      by (simp only: new_centroid_def Let_def length2 ex_assign ex_sums fst_conv snd_conv)
  qed
  ultimately have "pass_means default_dfunc ?col 4 [0, 10] ! 1 = new_centroid default_dfunc ?col 4 [0, 10] 1"
    by (simp add: default_dfunc_def)
  with nd r show ?thesis by (intro conjI)
qed

subsection \<open>C4: the groups of the centroid engine\<close>

text \<open>
  Claim C4: with at least one centroid and every distance between a point and a
  centroid below \<open>dbl_max\<close>, \<^verbatim>\<open>get_clusters\<close> returns \<open>K\<close> groups; group \<open>i\<close> starts with the
  address of centroid \<open>i\<close>; after that entry the groups hold addresses of column
  positions below the effective size only, none twice, and every such position is in
  exactly one group; the group of a position is that of a nearest centroid, the lowest
  index among the nearest. The instance is any instance, in particular one after
  compute.
\<close>

theorem km_get_clusters_partition:
  fixes v :: "'a KMeansVisitor"
  assumes k: "1 \<le> K v"
    and n: "n = min idx_size (length col)"
    and d: "\<forall>j<n. \<forall>i<K v. km_dfunc v (col ! j) (k_means v ! i) < dbl_max"
  shows "\<exists>clusters. km_get_clusters v idx_size col = Inr clusters \<and>
           length clusters = K v \<and>
           (\<forall>i<K v. hd (clusters ! i) = Mean i \<and>
              deref (k_means v) (hd (clusters ! i)) = k_means v ! i \<and>
              distinct (tl (clusters ! i)) \<and>
              set (tl (clusters ! i)) \<subseteq> Elem col ` {0..<n}) \<and>
           (\<forall>j<n. \<exists>!i. i < K v \<and> Elem col j \<in> set (tl (clusters ! i))) \<and>
           (\<forall>j<n. \<forall>i<K v. Elem col j \<in> set (tl (clusters ! i)) \<longrightarrow>
              (\<forall>i'<K v. km_dfunc v (col ! j) (k_means v ! i) \<le> km_dfunc v (col ! j) (k_means v ! i')) \<and>
              (\<forall>i'<i. km_dfunc v (col ! j) (k_means v ! i) < km_dfunc v (col ! j) (k_means v ! i')))"
proof -
  let ?cs = "k_means v" and ?f = "km_dfunc v"
  let ?init = "map (\<lambda>i. [Mean i :: 'a ptr]) [0..<K v]"
  let ?grp = "\<lambda>i. map (Elem col) (filter (\<lambda>j. min_idx ?f ?cs (col ! j) = Some i) [0..<n])"
  let ?cl = "map (\<lambda>i. ?init ! i @ ?grp i) [0..<length ?init]"
  have ne: "?cs \<noteq> []" using k by (auto simp: K_def)
  have tot: "\<exists>m<K v. min_idx ?f ?cs (col ! j) = Some m" if "j < n" for j
    using min_idx_total[OF ne, of ?f "col ! j"] d that by (simp add: K_def)
  have "\<forall>j\<in>set [0..<n]. \<exists>m<length ?init. min_idx ?f ?cs (col ! j) = Some m"
    using tot by simp
  from push_points_Inr[OF this]
  have res: "km_get_clusters v idx_size col = Inr ?cl"
    by (simp add: km_get_clusters_def n Let_def)
  have nth: "?cl ! i = Mean i # ?grp i" if "i < K v" for i
    using that by simp
  have len: "length ?cl = K v" by simp
  have p1: "hd (?cl ! i) = Mean i \<and> deref (k_means v) (hd (?cl ! i)) = k_means v ! i \<and>
      distinct (tl (?cl ! i)) \<and> set (tl (?cl ! i)) \<subseteq> Elem col ` {0..<n}"
    if "i < K v" for i
    unfolding nth[OF that] by (auto simp: distinct_map inj_on_def)
  have mem: "Elem col j \<in> set (tl (?cl ! i)) \<longleftrightarrow> min_idx ?f ?cs (col ! j) = Some i"
    if "i < K v" "j < n" for i j
    unfolding nth[OF that(1)] using that(2) by auto
  have p2: "\<exists>!i. i < K v \<and> Elem col j \<in> set (tl (?cl ! i))" if "j < n" for j
  proof -
    from tot[OF that] obtain m where m: "m < K v" "min_idx ?f ?cs (col ! j) = Some m" by auto
    show ?thesis
    proof (rule ex1I[of _ m])
      show "m < K v \<and> Elem col j \<in> set (tl (?cl ! m))" using m mem[OF m(1) that] by blast
    next
      fix i assume "i < K v \<and> Elem col j \<in> set (tl (?cl ! i))"
      then have "min_idx ?f ?cs (col ! j) = Some i" using mem[of i j] that by blast
      then show "i = m" using m by simp
    qed
  qed
  have p3: "(\<forall>i'<K v. ?f (col ! j) (?cs ! i) \<le> ?f (col ! j) (?cs ! i')) \<and>
            (\<forall>i'<i. ?f (col ! j) (?cs ! i) < ?f (col ! j) (?cs ! i'))"
    if "j < n" "i < K v" "Elem col j \<in> set (tl (?cl ! i))" for i j
  proof -
    from that mem[OF that(2) that(1)] have "min_idx ?f ?cs (col ! j) = Some i" by blast
    from min_idx_Some[OF this] show ?thesis by (simp add: K_def)
  qed
  show ?thesis
    apply (rule exI[of _ ?cl])
    apply (intro conjI)
    subgoal by (rule res)
    subgoal by (rule len)
    subgoal using p1 by blast
    subgoal using p2 by blast
    subgoal using p3 by blast
    done
qed

text \<open>
  Centroids 0 and 10, column 0, 1, 9.
\<close>

theorem km_get_clusters_partition_witness:
  "\<exists>clusters.
     km_get_clusters \<lparr>km_iter_num = 1, km_dfunc = default_dfunc, k_means = [0, 10]\<rparr> 3 [0, 1, 9] =
       Inr clusters \<and>
     length clusters = 2 \<and> hd (clusters ! 0) = Mean 0 \<and> hd (clusters ! 1) = Mean 1 \<and>
     (\<exists>!i. i < 2 \<and> Elem [0, 1, 9] 2 \<in> set (tl (clusters ! i)))"
proof -
  define v where "v = \<lparr>km_iter_num = 1, km_dfunc = default_dfunc, k_means = [0, 10::real]\<rparr>"
  have k: "K v = 2" by (simp add: v_def K_def)
  have h1: "1 \<le> K v" by (simp add: k)
  have h2: "3 = min 3 (length [0, 1, 9::real])" by simp
  have h3: "\<forall>j<3. \<forall>i<K v. km_dfunc v ([0, 1, 9] ! j) (k_means v ! i) < dbl_max"
    using ex_dist by (simp add: k) (simp add: v_def)
  from km_get_clusters_partition[OF h1 h2 h3]
  obtain clusters where c: "km_get_clusters v 3 [0, 1, 9] = Inr clusters" "length clusters = K v"
    "\<forall>i<K v. hd (clusters ! i) = Mean i \<and>
       deref (k_means v) (hd (clusters ! i)) = k_means v ! i \<and>
       distinct (tl (clusters ! i)) \<and>
       set (tl (clusters ! i)) \<subseteq> Elem [0, 1, 9] ` {0..<3}"
    "\<forall>j<3. \<exists>!i. i < K v \<and> Elem [0, 1, 9] j \<in> set (tl (clusters ! i))"
    by blast
  from c(3) have "hd (clusters ! 0) = Mean 0" "hd (clusters ! 1) = Mean 1" by (simp_all add: k)
  moreover from c(4) have "\<exists>!i. i < 2 \<and> Elem [0, 1, 9] 2 \<in> set (tl (clusters ! i))"
    by (simp add: k)
  moreover have "length clusters = 2" using c(2) k by simp
  ultimately show ?thesis using c(1) unfolding v_def by blast
qed

subsection \<open>C5: the similarity matrix\<close>

text \<open>
  Claim C5, as the code has it: the vector has \<open>n (n + 1) / 2\<close> entries; for \<open>i < j < n\<close> the
  entry at the offset of \<open>(i, j)\<close> is \<open>- dfunc (col ! i) (col ! j)\<close>, the smaller position
  first, and the symmetric reading gives this value for the pair from either order; and
  when some pair has a similarity of at most \<open>dbl_max\<close> (which needs two points), every
  diagonal entry is the least similarity over the pairs.
\<close>

theorem similarity_matrix:
  assumes "simil = get_similarity dfunc col n"
  shows "length simil = (n * (n + 1)) div 2 \<and>
         (\<forall>i j. i < j \<and> j < n \<longrightarrow>
            simil ! packed_offset n i j = - dfunc (col ! i) (col ! j) \<and>
            spec_similarity simil n i j = - dfunc (col ! i) (col ! j) \<and>
            spec_similarity simil n j i = - dfunc (col ! i) (col ! j)) \<and>
         ((\<exists>a b. a < b \<and> b < n \<and> - dfunc (col ! a) (col ! b) \<le> dbl_max) \<longrightarrow>
          (\<forall>i<n. spec_similarity simil n i i = simil ! packed_offset n i i \<and>
                  (\<forall>a b. a < b \<and> b < n \<longrightarrow> spec_similarity simil n i i \<le> spec_similarity simil n a b) \<and>
                  (\<exists>a b. a < b \<and> b < n \<and> spec_similarity simil n i i = spec_similarity simil n a b)))"
proof (intro conjI allI impI)
  show "length simil = (n * (n + 1)) div 2" by (simp add: assms length_get_similarity)
next
  fix i j assume "i < j \<and> j < n"
  then show "simil ! packed_offset n i j = - dfunc (col ! i) (col ! j)"
    by (simp add: assms get_similarity_pair)
next
  fix i j assume "i < j \<and> j < n"
  then show "spec_similarity simil n i j = - dfunc (col ! i) (col ! j)"
    by (simp add: spec_similarity_def assms get_similarity_pair min_absorb1 max_absorb2)
next
  fix i j assume "i < j \<and> j < n"
  then show "spec_similarity simil n j i = - dfunc (col ! i) (col ! j)"
    by (simp add: spec_similarity_def assms get_similarity_pair min_absorb2 max_absorb1)
next
  fix i show "spec_similarity simil n i i = simil ! packed_offset n i i"
    by (simp add: spec_similarity_def)
next
  fix i a b
  assume "\<exists>a b. a < b \<and> b < n \<and> - dfunc (col ! a) (col ! b) \<le> dbl_max" "i < n" "a < b \<and> b < n"
  then show "spec_similarity simil n i i \<le> spec_similarity simil n a b"
    by (simp add: spec_similarity_def assms get_similarity_pair get_similarity_diag min_val_lower
          min_absorb1 max_absorb2)
next
  fix i
  assume ex: "\<exists>a b. a < b \<and> b < n \<and> - dfunc (col ! a) (col ! b) \<le> dbl_max" and i: "i < n"
  let ?m = "snd (simil_pairs dfunc col n)"
  have "\<exists>a b. a < b \<and> b < n \<and> ?m = - dfunc (col ! a) (col ! b)"
  proof (cases "?m = dbl_max")
    case False
    with min_val_attained[of dfunc col n] show ?thesis by simp
  next
    case True
    from ex obtain a b where ab: "a < b" "b < n" "- dfunc (col ! a) (col ! b) \<le> dbl_max" by blast
    with min_val_lower[of a b n dfunc col] True have "?m = - dfunc (col ! a) (col ! b)" by simp
    with ab show ?thesis by blast
  qed
  then obtain a b where "a < b" "b < n" "?m = - dfunc (col ! a) (col ! b)" by blast
  then have "a < b \<and> b < n \<and> spec_similarity simil n i i = spec_similarity simil n a b"
    using i by (simp add: spec_similarity_def assms get_similarity_pair get_similarity_diag
          min_absorb1 max_absorb2)
  then show "\<exists>a b. a < b \<and> b < n \<and> spec_similarity simil n i i = spec_similarity simil n a b"
    by blast
qed

text \<open>
  The claim as stated fails in three places. Read with the offset formula at every
  \<open>(i, j)\<close>, the matrix is not symmetric: on the column 0, 1, 3 the entry for \<open>(1, 0)\<close> is
  -9 and the entry for \<open>(0, 1)\<close> is -1. Read symmetrically, the entry for \<open>(1, 0)\<close> is
  \<open>- dfunc (col ! 0) (col ! 1)\<close>, which for a distance that is not symmetric differs from
  \<open>- dfunc (col ! 1) (col ! 0)\<close>. And the diagonal is \<open>dbl_max\<close>, the similarity of no pair, on
  a column of one point, which has no pair, and on the column 0, \<open>2\<^sup>5\<^sup>1\<^sup>2\<close> under the negated
  default distance, whose one pair has a similarity above \<open>dbl_max\<close>.
\<close>

theorem similarity_matrix_counterexample:
  "simil_at (get_similarity default_dfunc [0, 1, 3] 3) 3 1 0 = - 9 \<and>
   simil_at (get_similarity default_dfunc [0, 1, 3] 3) 3 0 1 = - 1 \<and>
   - default_dfunc ([0, 1, 3] ! 1) ([0, 1, 3] ! 0) = - 1 \<and>
   spec_similarity (get_similarity (\<lambda>x y. if x \<le> y then y - x else 2 * (x - y)) [0, 1::real] 2) 2 1 0 = - 1 \<and>
   - (\<lambda>x y. if x \<le> y then y - x else 2 * (x - y)) ([0, 1::real] ! 1) ([0, 1] ! 0) = - 2 \<and>
   spec_similarity (get_similarity default_dfunc [5] 1) 1 0 0 = dbl_max \<and>
   spec_similarity (get_similarity (\<lambda>x y. - default_dfunc x y) [0, 2 ^ 512] 2) 2 0 0 = dbl_max \<and>
   dbl_max < spec_similarity (get_similarity (\<lambda>x y. - default_dfunc x y) [0, 2 ^ 512] 2) 2 0 1"
proof -
  have 1: "simil_at (get_similarity default_dfunc [0, 1, 3] 3) 3 1 0 = - 9"
    by (simp only: ex3_simil) (simp add: simil_at_def packed_offset_def)
  have 2: "simil_at (get_similarity default_dfunc [0, 1, 3] 3) 3 0 1 = - 1"
    by (simp only: ex3_simil) (simp add: simil_at_def packed_offset_def)
  have 3: "- default_dfunc ([0, 1, 3] ! 1) ([0, 1, 3] ! 0) = - 1"
    by (simp add: default_dfunc_def)
  have 4: "spec_similarity (get_similarity (\<lambda>x y. if x \<le> y then y - x else 2 * (x - y)) [0, 1::real] 2) 2 1 0 = - 1"
    by (simp only: ex2_simil_asym) (simp add: spec_similarity_def packed_offset_def)
  have 5: "- (\<lambda>x y. if x \<le> y then y - x else 2 * (x - y)) ([0, 1::real] ! 1) ([0, 1] ! 0) = - 2"
    by simp
  have 6: "spec_similarity (get_similarity default_dfunc [5] 1) 1 0 0 = dbl_max"
    by (simp only: ex1_simil) (simp add: spec_similarity_def packed_offset_def)
  define far :: real where "far = 2 ^ 512"
  have f: "default_dfunc 0 far = 2 ^ 1024"
    by (simp add: far_def default_dfunc_def power_add[symmetric])
  with dbl_max_lt have lt: "dbl_max < default_dfunc 0 far" by simp
  then have b: "dbl_max \<le> - (\<lambda>x y. - default_dfunc x y) 0 far" by simp
  note s = ex2_simil_far[of "\<lambda>x y. - default_dfunc x y" 0 far, OF b]
  have 7: "spec_similarity (get_similarity (\<lambda>x y. - default_dfunc x y) [0, far] 2) 2 0 0 = dbl_max"
    by (simp only: s) (simp add: spec_similarity_def packed_offset_def)
  have "spec_similarity (get_similarity (\<lambda>x y. - default_dfunc x y) [0, far] 2) 2 0 1 = default_dfunc 0 far"
    by (simp only: s) (simp add: spec_similarity_def packed_offset_def)
  with lt have 8: "dbl_max < spec_similarity (get_similarity (\<lambda>x y. - default_dfunc x y) [0, far] 2) 2 0 1"
    by simp
  from 1 2 3 4 5 6 7 8 show ?thesis unfolding far_def by (intro conjI)
qed

text \<open>
  The column 0, 1, 3 under the default distance.
\<close>

theorem similarity_matrix_witness:
  "length (get_similarity default_dfunc [0, 1, 3] 3) = 6 \<and>
   get_similarity default_dfunc [0, 1, 3] 3 ! packed_offset 3 1 2 = - default_dfunc 1 3 \<and>
   spec_similarity (get_similarity default_dfunc [0, 1, 3] 3) 3 1 2 = - default_dfunc 1 3 \<and>
   spec_similarity (get_similarity default_dfunc [0, 1, 3] 3) 3 2 1 = - default_dfunc 1 3 \<and>
   spec_similarity (get_similarity default_dfunc [0, 1, 3] 3) 3 1 1 \<le>
     spec_similarity (get_similarity default_dfunc [0, 1, 3] 3) 3 0 2 \<and>
   (\<exists>a b. a < b \<and> b < 3 \<and>
      spec_similarity (get_similarity default_dfunc [0, 1, 3] 3) 3 1 1 =
      spec_similarity (get_similarity default_dfunc [0, 1, 3] 3) 3 a b)"
proof -
  define simil where "simil = get_similarity default_dfunc [0, 1, 3] 3"
  note t = similarity_matrix[OF simil_def]
  have ex: "\<exists>a b. a < b \<and> b < (3::nat) \<and> - default_dfunc ([0, 1, 3] ! a) ([0, 1, 3] ! b) \<le> dbl_max"
    by (intro exI[of _ 0] exI[of _ 1]) (simp add: default_dfunc_def dbl_max_def)
  from t have l: "length simil = 6" by simp
  have p: "(1::nat) < 2 \<and> (2::nat) < 3" by simp
  from t p have "simil ! packed_offset 3 1 2 = - default_dfunc ([0, 1, 3] ! 1) ([0, 1, 3] ! 2) \<and>
      spec_similarity simil 3 1 2 = - default_dfunc ([0, 1, 3] ! 1) ([0, 1, 3] ! 2) \<and>
      spec_similarity simil 3 2 1 = - default_dfunc ([0, 1, 3] ! 1) ([0, 1, 3] ! 2)"
    by blast
  then have a: "simil ! packed_offset 3 1 2 = - default_dfunc 1 3"
      "spec_similarity simil 3 1 2 = - default_dfunc 1 3"
      "spec_similarity simil 3 2 1 = - default_dfunc 1 3"
    by simp_all
  from t ex have d: "\<forall>i<3. spec_similarity simil 3 i i = simil ! packed_offset 3 i i \<and>
        (\<forall>a b. a < b \<and> b < 3 \<longrightarrow> spec_similarity simil 3 i i \<le> spec_similarity simil 3 a b) \<and>
        (\<exists>a b. a < b \<and> b < 3 \<and> spec_similarity simil 3 i i = spec_similarity simil 3 a b)"
    by blast
  have "(1::nat) < 3" by simp
  with d have e: "(\<forall>a b. a < b \<and> b < 3 \<longrightarrow> spec_similarity simil 3 1 1 \<le> spec_similarity simil 3 a b) \<and>
        (\<exists>a b. a < b \<and> b < 3 \<and> spec_similarity simil 3 1 1 = spec_similarity simil 3 a b)"
    by blast
  have q: "(0::nat) < 2 \<and> (2::nat) < 3" by simp
  from e q have b: "spec_similarity simil 3 1 1 \<le> spec_similarity simil 3 0 2"
    by blast
  from e have c: "\<exists>a b. a < b \<and> b < 3 \<and> spec_similarity simil 3 1 1 = spec_similarity simil 3 a b"
    by blast
  from l a b c show ?thesis unfolding simil_def by (intro conjI)
qed

subsection \<open>C6: the selection of exemplars\<close>

text \<open>
  Claim C6: after the configured rounds, position \<open>i\<close> is in the exemplar set exactly when
  \<open>r(i,i) + a(i,i) > 0\<close>, and the set has at most as many entries as the effective size.
  Compute appends exactly these positions, in increasing order
  (\<open>compute_appends_selected\<close>), so on a new instance the claim holds
  (\<open>fresh_compute_selects\<close>). On an instance that has computed before it does not: nothing
  empties \<^verbatim>\<open>centers_\<close>, as in C1. One compute on the column of the one point 5 elects the
  point; after a second compute the result has two entries on an effective size of 1.
  After a compute on the first point of the column 0, 1 and a compute on both points,
  position 0 is in the result although \<open>r(0,0) + a(0,0) = 0\<close> in the second compute.
\<close>

theorem selection_after_reuse:
  "ap_get_result (ap_compute (new_AffinityPropVisitor 1 default_dfunc (1 / 2)) 1 [5]) = [Elem [5] 0] \<and>
   ap_get_result (ap_compute (ap_compute (new_AffinityPropVisitor 1 default_dfunc (1 / 2)) 1 [5]) 1 [5]) =
     [Elem [5] 0, Elem [5] 0] \<and>
   min 1 (length [5::real]) = 1 \<and>
   ap_get_result (ap_compute (ap_compute (new_AffinityPropVisitor 1 default_dfunc (1 / 2)) 1 [0, 1]) 2 [0, 1]) =
     [Elem [0, 1] 0] \<and>
   snd (get_avail_and_respon 1 (1 / 2) (get_similarity default_dfunc [0, 1] 2) 2) ! (0 * 2 + 0) +
   fst (get_avail_and_respon 1 (1 / 2) (get_similarity default_dfunc [0, 1] 2) 2) ! (0 * 2 + 0) = 0"
proof -
  let ?v0 = "new_AffinityPropVisitor 1 default_dfunc (1 / 2) :: real AffinityPropVisitor"
  have 0: "ap_iter_num ?v0 = 1" "ap_dfunc ?v0 = default_dfunc" "dfactor ?v0 = 1 / 2" "centers ?v0 = []"
    by (simp_all add: new_AffinityPropVisitor_def)
  have m1: "min 1 (length [5::real]) = 1" and m2: "min 1 (length [0, 1::real]) = 1" by simp_all
  let ?a = "ap_compute ?v0 1 [5]"
  have a: "ap_iter_num ?a = 1" "ap_dfunc ?a = default_dfunc" "dfactor ?a = 1 / 2"
    by (simp_all only: ap_compute_fields 0)
  have ca: "centers ?a = [Elem [5] 0]"
    by (simp only: first_point_compute[OF 0(1) 0(3) m1] 0(4) append_Nil)
  have caa: "centers (ap_compute ?a 1 [5]) = [Elem [5] 0, Elem [5] 0]"
    by (simp only: first_point_compute[OF a(1) a(3) m1] ca append_Cons append_Nil)
  let ?b = "ap_compute ?v0 1 [0, 1]"
  have b: "ap_iter_num ?b = 1" "ap_dfunc ?b = default_dfunc" "dfactor ?b = 1 / 2"
    by (simp_all only: ap_compute_fields 0)
  have cb: "centers ?b = [Elem [0, 1] 0]"
    by (simp only: first_point_compute[OF 0(1) 0(3) m2] 0(4) append_Nil)
  have cbb: "centers (ap_compute ?b 2 [0, 1]) = [Elem [0, 1] 0]"
    by (simp only: ex2_compute[OF b] cb)
  have z: "snd (get_avail_and_respon 1 (1 / 2) (get_similarity default_dfunc [0, 1] 2) 2) ! (0 * 2 + 0) +
   fst (get_avail_and_respon 1 (1 / 2) (get_similarity default_dfunc [0, 1] 2) 2) ! (0 * 2 + 0) = 0"
    by (simp only: ex2_simil ex2_messages fst_conv snd_conv) simp
  from ca caa m1 cbb z show ?thesis by (simp only: ap_get_result_def) 
qed

subsection \<open>C7: the groups of the exemplar engine\<close>

text \<open>
  Claim C7: with no exemplar \<^verbatim>\<open>get_clusters\<close> returns no group, and with exemplars it
  puts every position into the group of its nearest exemplar. The first half holds by
  the guard of line 303, and the second whenever every point has an exemplar at a
  distance below \<open>dbl_max\<close> (\<open>ap_get_clusters_Inr\<close>, \<open>min_idx_Some\<close>). For a point with no such
  exemplar \<^verbatim>\<open>min_idx\<close> is never assigned and \<^verbatim>\<open>clusters[min_idx]\<close> reads it: with a
  distance function that returns \<open>dbl_max\<close>, the column of the one point 5 elects that
  point, and \<^verbatim>\<open>get_clusters\<close> then reads the uninitialised index.
\<close>

theorem get_clusters_uninitialised:
  "ap_get_result (ap_compute (new_AffinityPropVisitor 1 (\<lambda>x y. dbl_max) (1 / 2)) 1 [5::real]) =
     [Elem [5] 0] \<and>
   ap_get_clusters (ap_compute (new_AffinityPropVisitor 1 (\<lambda>x y. dbl_max) (1 / 2)) 1 [5::real]) 1 [5] =
     Inl UninitialisedIndex"
proof -
  define v where "v = ap_compute (new_AffinityPropVisitor 1 (\<lambda>x y. dbl_max) (1 / 2)) 1 [5::real]"
  have c: "centers v = [Elem [5] 0]"
    unfolding v_def
    using ex1_compute[of "new_AffinityPropVisitor 1 (\<lambda>x y. dbl_max) (1 / 2)" 5]
    by (simp add: new_AffinityPropVisitor_def)
  have d: "ap_dfunc v = (\<lambda>x y. dbl_max)"
    unfolding v_def by (simp add: ap_compute_fields new_AffinityPropVisitor_def)
  have "ap_get_clusters v 1 [5] = Inl UninitialisedIndex"
    by (rule ap_get_clusters_Inl) (simp_all add: c d)
  with c show ?thesis
    unfolding v_def ap_get_result_def by (intro conjI)
qed

subsection \<open>C8: the divisor\<close>

text \<open>
  Claim C8: in every pass and for every cluster, the count of the cluster is the number
  of points assigned to it, the divisor is that count when it is at least 1 and 1 when
  it is 0, so it is never 0; the update step forms the new centroid as the sum divided
  by this divisor, adopts it when it is farther than \<open>10\<^sup>-\<^sup>7\<close> from the old centroid, and the
  pass leaves the centroids so; a cluster without points has the sum 0 and the new
  centroid 0, the default-constructed value divided by 1.
\<close>

theorem divisor_never_zero:
  assumes "cluster < length means"
  shows "let assignments = find_assignments dfunc means col col_size;
             sc = sum_and_count (length means) col col_size assignments;
             cnt = assigned_count assignments col_size cluster;
             val = fst sc ! cluster / divisor (snd sc) cluster
         in snd sc ! cluster = real cnt \<and>
            divisor (snd sc) cluster = (if 1 \<le> cnt then real cnt else 1) \<and>
            divisor (snd sc) cluster \<noteq> 0 \<and>
            new_centroid dfunc col col_size means cluster = val \<and>
            (cnt = 0 \<longrightarrow> fst sc ! cluster = 0 \<and> val = 0) \<and>
            update_step dfunc (fst sc) (snd sc) st cluster =
              (if dfunc val (snd st ! cluster) > 1 / 10000000
               then (False, (snd st)[cluster := val]) else st) \<and>
            iteration dfunc col col_size means = update_means dfunc (fst sc) (snd sc) means \<and>
            snd (iteration dfunc col col_size means) ! cluster =
              (if dfunc val (means ! cluster) > 1 / 10000000 then val else means ! cluster) \<and>
            pass_means dfunc col col_size means ! cluster =
              (if dfunc val (means ! cluster) > 1 / 10000000 then val else means ! cluster)"
proof -
  let ?a = "find_assignments dfunc means col col_size"
  let ?sc = "sum_and_count (length means) col col_size ?a"
  let ?cnt = "assigned_count ?a col_size cluster"
  let ?val = "fst ?sc ! cluster / divisor (snd ?sc) cluster"
  from sum_fold[OF assms, of col ?a col_size]
  have c: "snd ?sc ! cluster = real ?cnt"
    and s: "fst ?sc ! cluster =
      sum_list (map (\<lambda>point. col ! point) (filter (\<lambda>point. ?a ! point = cluster) [0..<col_size]))"
    by (simp_all add: sum_and_count_def Let_def)
  have dv: "divisor (snd ?sc) cluster = (if 1 \<le> ?cnt then real ?cnt else 1)"
    by (auto simp: divisor_def c max_def)
  then have nz: "divisor (snd ?sc) cluster \<noteq> 0" by auto
  have nc: "new_centroid dfunc col col_size means cluster = ?val"
    by (simp add: new_centroid_def candidate_def Let_def)
  have z: "fst ?sc ! cluster = 0" if "?cnt = 0"
    using that s by (simp add: assigned_count_def)
  have u: "update_step dfunc (fst ?sc) (snd ?sc) st cluster =
      (if dfunc ?val (snd st ! cluster) > 1 / 10000000
       then (False, (snd st)[cluster := ?val]) else st)"
    by (simp add: update_step_def candidate_def Let_def)
  have it: "iteration dfunc col col_size means = update_means dfunc (fst ?sc) (snd ?sc) means"
    by (simp add: iteration_def Let_def)
  have pm: "pass_means dfunc col col_size means ! cluster =
      (if dfunc ?val (means ! cluster) > 1 / 10000000 then ?val else means ! cluster)"
    using pass_means_nth[OF assms, of dfunc col col_size] by (simp only: nc)
  then have sn: "snd (iteration dfunc col col_size means) ! cluster =
      (if dfunc ?val (means ! cluster) > 1 / 10000000 then ?val else means ! cluster)"
    by (simp only: pass_means_def)
  show ?thesis unfolding Let_def using c dv nz nc z u it sn pm by simp
qed

text \<open>
  Two equal centroids 0, 0 and the column 0, 1: both points go to cluster 0, its divisor
  is 2 and it adopts the new centroid 1/2; cluster 1 is empty, its divisor is 1, its new
  centroid is 0 and it keeps 0.
\<close>

theorem divisor_never_zero_witness:
  "assigned_count (find_assignments default_dfunc [0, 0] [0, 1] 2) 2 1 = 0 \<and>
   divisor (snd (sum_and_count 2 [0, 1] 2 (find_assignments default_dfunc [0, 0] [0, 1] 2))) 1 = 1 \<and>
   new_centroid default_dfunc [0, 1] 2 [0, 0] 1 = 0 \<and>
   pass_means default_dfunc [0, 1] 2 [0, 0] ! 1 = 0 \<and>
   assigned_count (find_assignments default_dfunc [0, 0] [0, 1] 2) 2 0 = 2 \<and>
   divisor (snd (sum_and_count 2 [0, 1] 2 (find_assignments default_dfunc [0, 0] [0, 1] 2))) 0 = 2 \<and>
   new_centroid default_dfunc [0, 1] 2 [0, 0] 0 = 1 / 2 \<and>
   pass_means default_dfunc [0, 1] 2 [0, 0] ! 0 = 1 / 2"
proof -
  have l: "length [0, 0::real] = 2" by simp
  have h1: "1 < length [0, 0::real]" and h0: "0 < length [0, 0::real]" by simp_all
  note t1 = divisor_never_zero[OF h1, of default_dfunc "[0, 1]" 2, unfolded Let_def l]
  note t0 = divisor_never_zero[OF h0, of default_dfunc "[0, 1]" 2, unfolded Let_def l]
  have c1: "assigned_count (find_assignments default_dfunc [0, 0] [0, 1] 2) 2 1 = 0"
    by (simp only: ex0_assign) (simp add: assigned_count_def upt_unfold)
  have c0: "assigned_count (find_assignments default_dfunc [0, 0] [0, 1] 2) 2 0 = 2"
    by (simp only: ex0_assign) (simp add: assigned_count_def upt_unfold)
  have s0: "fst (sum_and_count 2 [0, 1] 2 (find_assignments default_dfunc [0, 0] [0, 1] 2)) ! 0 = 1"
    by (simp only: ex0_assign ex0_sums) simp
  from t1 c1 have d1: "divisor (snd (sum_and_count 2 [0, 1] 2 (find_assignments default_dfunc [0, 0] [0, 1] 2))) 1 = 1"
    and n1: "new_centroid default_dfunc [0, 1] 2 [0, 0] 1 = 0"
    and p1: "pass_means default_dfunc [0, 1] 2 [0, 0] ! 1 = 0"
    by (simp_all add: default_dfunc_def)
  from t0 c0 have d0: "divisor (snd (sum_and_count 2 [0, 1] 2 (find_assignments default_dfunc [0, 0] [0, 1] 2))) 0 = 2"
    by simp
  from t0 have n0: "new_centroid default_dfunc [0, 1] 2 [0, 0] 0 = 1 / 2"
    by (simp add: d0 s0)
  from t0 have p0: "pass_means default_dfunc [0, 1] 2 [0, 0] ! 0 = 1 / 2"
    by (simp add: d0 s0 default_dfunc_def)
  from c1 d1 n1 p1 c0 d0 n0 p0 show ?thesis by (intro conjI)
qed

subsection \<open>C9: the index of the group\<close>

text \<open>
  Claim C9, as the code has it: \<^verbatim>\<open>min_idx\<close> is assigned only an index whose distance is
  below \<open>dbl_max\<close>, and it stays unassigned exactly when no centre is at a distance below
  \<open>dbl_max\<close>; with at least one centroid, or exemplar, and all distances between points
  and centres below \<open>dbl_max\<close>, each engine's \<^verbatim>\<open>get_clusters\<close> succeeds and puts every
  position into exactly one group, once; when some point has no centre at a distance
  below \<open>dbl_max\<close> (for the exemplar engine: and there is an exemplar) the index is read
  uninitialised; and with no exemplar the exemplar engine returns no group.
\<close>

theorem min_idx_initialised:
  fixes kv :: "'a KMeansVisitor" and av :: "'a AffinityPropVisitor"
  assumes n: "n = min idx_size (length col)"
  shows
    "(\<forall>m. min_idx dfunc cs x = Some m \<longrightarrow> m < length cs \<and> dfunc x (cs ! m) < dbl_max) \<and>
     (min_idx dfunc cs x = None \<longleftrightarrow> (\<forall>i<length cs. \<not> dfunc x (cs ! i) < dbl_max)) \<and>
     (1 \<le> K kv \<and> (\<forall>j<n. \<forall>i<K kv. km_dfunc kv (col ! j) (k_means kv ! i) < dbl_max) \<longrightarrow>
        (\<exists>cl. km_get_clusters kv idx_size col = Inr cl \<and> length cl = K kv \<and>
           (\<forall>i<K kv. distinct (cl ! i)) \<and>
           (\<forall>j<n. \<exists>!i. i < K kv \<and> Elem col j \<in> set (cl ! i)))) \<and>
     (centers av \<noteq> [] \<and>
      (\<forall>j<n. \<forall>i<length (centers av). ap_dfunc av (col ! j) (deref [] (centers av ! i)) < dbl_max) \<longrightarrow>
        (\<exists>cl. ap_get_clusters av idx_size col = Inr cl \<and> length cl = length (centers av) \<and>
           (\<forall>i<length (centers av). distinct (cl ! i)) \<and>
           (\<forall>j<n. \<exists>!i. i < length (centers av) \<and> Elem col j \<in> set (cl ! i)))) \<and>
     ((\<exists>j<n. \<forall>i<K kv. \<not> km_dfunc kv (col ! j) (k_means kv ! i) < dbl_max) \<longrightarrow>
        km_get_clusters kv idx_size col = Inl UninitialisedIndex) \<and>
     (centers av \<noteq> [] \<and>
      (\<exists>j<n. \<forall>i<length (centers av). \<not> ap_dfunc av (col ! j) (deref [] (centers av ! i)) < dbl_max) \<longrightarrow>
        ap_get_clusters av idx_size col = Inl UninitialisedIndex) \<and>
     (centers av = [] \<longrightarrow> ap_get_clusters av idx_size col = Inr [])"
proof (intro conjI impI allI)
  fix m assume "min_idx dfunc cs x = Some m"
  from min_idx_Some[OF this] show "m < length cs" "dfunc x (cs ! m) < dbl_max" by simp_all
next
  show "min_idx dfunc cs x = None \<longleftrightarrow> (\<forall>i<length cs. \<not> dfunc x (cs ! i) < dbl_max)"
    by (rule min_idx_None)
next
  assume "1 \<le> K kv \<and> (\<forall>j<n. \<forall>i<K kv. km_dfunc kv (col ! j) (k_means kv ! i) < dbl_max)"
  then show "\<exists>cl. km_get_clusters kv idx_size col = Inr cl \<and> length cl = K kv \<and>
           (\<forall>i<K kv. distinct (cl ! i)) \<and>
           (\<forall>j<n. \<exists>!i. i < K kv \<and> Elem col j \<in> set (cl ! i))"
    unfolding n using km_groups[of kv idx_size col] by blast
next
  assume "centers av \<noteq> [] \<and>
      (\<forall>j<n. \<forall>i<length (centers av). ap_dfunc av (col ! j) (deref [] (centers av ! i)) < dbl_max)"
  then show "\<exists>cl. ap_get_clusters av idx_size col = Inr cl \<and> length cl = length (centers av) \<and>
           (\<forall>i<length (centers av). distinct (cl ! i)) \<and>
           (\<forall>j<n. \<exists>!i. i < length (centers av) \<and> Elem col j \<in> set (cl ! i))"
    unfolding n using ap_groups[of av idx_size col] by blast
next
  assume "\<exists>j<n. \<forall>i<K kv. \<not> km_dfunc kv (col ! j) (k_means kv ! i) < dbl_max"
  then show "km_get_clusters kv idx_size col = Inl UninitialisedIndex"
    unfolding n by (rule km_get_clusters_Inl)
next
  assume "centers av \<noteq> [] \<and>
      (\<exists>j<n. \<forall>i<length (centers av). \<not> ap_dfunc av (col ! j) (deref [] (centers av ! i)) < dbl_max)"
  then show "ap_get_clusters av idx_size col = Inl UninitialisedIndex"
    unfolding n using ap_get_clusters_Inl[of av idx_size col] by blast
next
  assume "centers av = []"
  then show "ap_get_clusters av idx_size col = Inr []"
    by (simp add: ap_get_clusters_def)
qed

text \<open>
  The claim as stated fails in two places. The exemplar engine with no exemplar, here
  after compute on the column 0, 1, puts no point into any group although no distance
  breaks the bound. And a distance that breaks the bound does not by itself leave the
  index unassigned: with centroids 1 and \<open>2\<^sup>5\<^sup>1\<^sup>2\<close> the point 0 is farther than \<open>dbl_max\<close>
  from the second centroid and is still put into the group of the first.
\<close>

theorem min_idx_initialised_counterexample:
  "ap_get_result (ap_compute (new_AffinityPropVisitor 1 default_dfunc (1 / 2)) 2 [0, 1]) = [] \<and>
   ap_get_clusters (ap_compute (new_AffinityPropVisitor 1 default_dfunc (1 / 2)) 2 [0, 1]) 2 [0, 1] = Inr [] \<and>
   \<not> default_dfunc 0 (2 ^ 512) < dbl_max \<and>
   km_get_clusters \<lparr>km_iter_num = 1, km_dfunc = default_dfunc, k_means = [1, 2 ^ 512]\<rparr> 1 [0] =
     Inr [[Mean 0, Elem [0] 0], [Mean 1]]"
proof -
  define v where "v = ap_compute (new_AffinityPropVisitor 1 default_dfunc (1 / 2)) 2 [0, 1]"
  have c: "centers v = []"
    unfolding v_def
    using ex2_compute[of "new_AffinityPropVisitor 1 default_dfunc (1 / 2)"]
    by (simp add: new_AffinityPropVisitor_def)
  then have g: "ap_get_clusters v 2 [0, 1] = Inr []"
    by (simp add: ap_get_clusters_def)
  from c g show ?thesis
    unfolding v_def ap_get_result_def using ex_far ex_far_clusters by (intro conjI)
qed

text \<open>
  Centroids 0 and 10, and the exemplar elected on the column 0, 1, 3: every position
  gets one group. With a distance function that returns \<open>dbl_max\<close> the index is read
  uninitialised. A new instance of the exemplar engine has no exemplar and returns no
  group.
\<close>

theorem min_idx_initialised_witness:
  "(\<exists>cl. km_get_clusters \<lparr>km_iter_num = 1, km_dfunc = default_dfunc, k_means = [0, 10]\<rparr> 3 [0, 1, 3] = Inr cl \<and>
         length cl = 2 \<and> (\<exists>!i. i < 2 \<and> Elem [0, 1, 3] 2 \<in> set (cl ! i))) \<and>
   (\<exists>cl. ap_get_clusters (ap_compute (new_AffinityPropVisitor 1 default_dfunc (1 / 2)) 3 [0, 1, 3]) 3 [0, 1, 3] = Inr cl \<and>
         length cl = 1 \<and> (\<exists>!i. i < 1 \<and> Elem [0, 1, 3] 2 \<in> set (cl ! i))) \<and>
   km_get_clusters \<lparr>km_iter_num = 1, km_dfunc = (\<lambda>x y. dbl_max), k_means = [0::real]\<rparr> 1 [5] =
     Inl UninitialisedIndex \<and>
   ap_get_clusters (new_AffinityPropVisitor 1 default_dfunc (1 / 2)) 1 [5] = Inr []"
proof -
  define kv where "kv = \<lparr>km_iter_num = 1, km_dfunc = default_dfunc, k_means = [0, 10::real]\<rparr>"
  define av where "av = ap_compute (new_AffinityPropVisitor 1 default_dfunc (1 / 2)) 3 [0, 1, 3]"
  define bv where "bv = \<lparr>km_iter_num = 1, km_dfunc = (\<lambda>x y. dbl_max), k_means = [0::real]\<rparr>"
  have k: "K kv = 2" by (simp add: kv_def K_def)
  have c: "centers av = [Elem [0, 1, 3] 1]"
    unfolding av_def
    using ex3_compute[of "new_AffinityPropVisitor 1 default_dfunc (1 / 2)"]
    by (simp add: new_AffinityPropVisitor_def)
  have d: "ap_dfunc av = default_dfunc"
    unfolding av_def by (simp add: ap_compute_fields new_AffinityPropVisitor_def)
  have n: "3 = min 3 (length [0, 1, 3::real])" by simp
  note t = min_idx_initialised[OF n, where kv = kv and av = av]
  have h3: "1 \<le> K kv \<and> (\<forall>j<3. \<forall>i<K kv. km_dfunc kv ([0, 1, 3] ! j) (k_means kv ! i) < dbl_max)"
    using ex3_dist by (simp add: k) (simp add: kv_def)
  from t[THEN conjunct2, THEN conjunct2, THEN conjunct1, rule_format, OF h3]
  obtain cl where cl: "km_get_clusters kv 3 [0, 1, 3] = Inr cl" "length cl = K kv"
      "\<forall>j<3. \<exists>!i. i < K kv \<and> Elem [0, 1, 3] j \<in> set (cl ! i)"
    by blast
  have 1: "\<exists>cl. km_get_clusters kv 3 [0, 1, 3] = Inr cl \<and> length cl = 2 \<and>
      (\<exists>!i. i < 2 \<and> Elem [0, 1, 3] 2 \<in> set (cl ! i))"
    using cl by (intro exI[of _ cl]) (simp add: k)
  have h4: "centers av \<noteq> [] \<and>
      (\<forall>j<3. \<forall>i<length (centers av). ap_dfunc av ([0, 1, 3] ! j) (deref [] (centers av ! i)) < dbl_max)"
    using ex3_dist_ap by (simp add: c d)
  from t[THEN conjunct2, THEN conjunct2, THEN conjunct2, THEN conjunct1, rule_format, OF h4]
  obtain cl' where cl': "ap_get_clusters av 3 [0, 1, 3] = Inr cl'" "length cl' = length (centers av)"
      "\<forall>j<3. \<exists>!i. i < length (centers av) \<and> Elem [0, 1, 3] j \<in> set (cl' ! i)"
    by blast
  have 2: "\<exists>cl. ap_get_clusters av 3 [0, 1, 3] = Inr cl \<and> length cl = 1 \<and>
      (\<exists>!i. i < 1 \<and> Elem [0, 1, 3] 2 \<in> set (cl ! i))"
    using cl' by (intro exI[of _ cl']) (simp add: c)
  have n1: "1 = min 1 (length [5::real])" by simp
  note u = min_idx_initialised[OF n1, where kv = bv]
  have h5: "\<exists>j<1. \<forall>i<K bv. \<not> km_dfunc bv ([5] ! j) (k_means bv ! i) < dbl_max"
    by (simp add: bv_def K_def)
  have 3: "km_get_clusters bv 1 [5] = Inl UninitialisedIndex"
    by (rule u[THEN conjunct2, THEN conjunct2, THEN conjunct2, THEN conjunct2, THEN conjunct1, rule_format, OF h5])
  define ev where "ev = new_AffinityPropVisitor 1 default_dfunc (1 / 2)"
  have h7: "centers ev = []" by (simp add: ev_def new_AffinityPropVisitor_def)
  have 4: "ap_get_clusters ev 1 [5] = Inr []"
    by (rule min_idx_initialised[OF n1, where av = ev, THEN conjunct2, THEN conjunct2, THEN conjunct2,
          THEN conjunct2, THEN conjunct2, THEN conjunct2, rule_format, OF h7])
  from 1 2 3 4 show ?thesis unfolding kv_def av_def bv_def ev_def by (intro conjI)
qed

subsection \<open>C10: how the loops end\<close>

text \<open>
  Claim C10: the message-passing loop makes exactly the configured number of rounds for
  every input, the refinement loop stops early only by convergence, and both computes
  run to completion. The loops are as claimed (\<open>ap_compute_rounds\<close>, \<open>loops_end\<close>). But on an
  empty column, or with an empty index, compute of the exemplar engine does not reach
  its rounds in any feasible time: the effective size is 0, the bound \<^verbatim>\<open>csize - 1\<close> of line
  180 wraps around, and the outer loop of \<^verbatim>\<open>get_similarity_\<close> makes \<open>2\<^sup>6\<^sup>4 - 1\<close> turns, each
  with an inner loop that does not start. On the column 0, 1, 3 it makes 2 turns.
\<close>

theorem similarity_loop_wraps:
  "simil_pairs default_dfunc [] (min 0 (length ([] :: real list))) =
     foldl (simil_row default_dfunc [] 0) ([], dbl_max) (outer_turns 0) \<and>
   length (outer_turns (min 0 (length ([] :: real list)))) = 2 ^ 64 - 1 \<and>
   length (outer_turns (min 3 (length ([] :: real list)))) = 2 ^ 64 - 1 \<and>
   length (outer_turns (min 0 (length [0, 1, 3 :: real]))) = 2 ^ 64 - 1 \<and>
   length (outer_turns (min 3 (length [0, 1, 3 :: real]))) = 2"
proof -
  have "simil_pairs default_dfunc [] (min 0 (length ([] :: real list))) =
     foldl (simil_row default_dfunc [] 0) ([], dbl_max) (outer_turns 0)"
    by (simp add: simil_pairs_def)
  moreover have "length (outer_turns 0) = 2 ^ 64 - 1" "length (outer_turns 3) = 2"
    by (simp_all add: length_outer_turns size_t_pred_def size_max_def)
  moreover have "min 0 (length ([] :: real list)) = 0" "min 3 (length ([] :: real list)) = 0"
    "min 0 (length [0, 1, 3 :: real]) = 0" "min 3 (length [0, 1, 3 :: real]) = 3"
    by simp_all
  ultimately show ?thesis by (simp only:) 
qed

end
